theory Spec2Isabelle
  imports Complex_Main "HOL-Library.Signed_Division" "HOL-Library.Product_Lexorder"
begin

unbundle bit_operations_syntax

section \<open>Conventions of the embedding\<close>

text \<open>
  The source is \<^verbatim>\<open>src/easyspin/private/chili_lm2.c\<close>. Its \<^verbatim>\<open>int\<close> and \<^verbatim>\<open>long\<close>
  variables are modelled as mathematical integers: signed overflow is undefined in C, so the
  model describes the runs in which no counter leaves the range of its type. Its
  \<^verbatim>\<open>double\<close> values are modelled as real numbers, that is, as finite values computed
  without rounding; \<^verbatim>\<open>x != 0\<close> on doubles is the exact comparison \<open>x \<noteq> 0\<close>.
  A \<^verbatim>\<open>double*\<close> that the code only reads is a function from the offset to the value
  stored there; a pointer that the code tests against \<^verbatim>\<open>NULL\<close> is an \<open>option\<close>.
  The function \<^verbatim>\<open>jjj\<close> (Wigner 3-j symbol) is declared in \<^verbatim>\<open>jjj.h\<close>, which is not
  part of the source tree; it is a parameter of every definition that calls it.
  The flag \<^verbatim>\<open>Display\<close> is initialised to \<^verbatim>\<open>false\<close> and never assigned, so the
  \<^verbatim>\<open>mexPrintf\<close> calls that it guards are left out.
\<close>

type_synonym wigner3j = "int \<Rightarrow> int \<Rightarrow> int \<Rightarrow> int \<Rightarrow> int \<Rightarrow> int \<Rightarrow> real"

subsection \<open>Small helpers of the source\<close>

text \<open>\<^verbatim>\<open>k % 2\<close> in C truncates towards zero, so it is \<open>-1\<close> for a negative odd \<open>k\<close>.\<close>

definition isodd :: "int \<Rightarrow> int" where
  "isodd k = k smod 2"

definition parity :: "int \<Rightarrow> int" where
  "parity k = (if isodd k \<noteq> 0 then - 1 else 1)"

definition mini :: "int \<Rightarrow> int \<Rightarrow> int" where
  "mini a b = (if a < b then a else b)"

text \<open>The cast \<^verbatim>\<open>(int)x\<close> of a double: truncation towards zero.\<close>

definition c_int :: "real \<Rightarrow> int" where
  "c_int x = (if 0 \<le> x then \<lfloor>x\<rfloor> else \<lceil>x\<rceil>)"

definition sqrt12 :: real where "sqrt12 = 70710678118655 / 100000000000000"
definition sqrt13 :: real where "sqrt13 = 57735026918963 / 100000000000000"
definition sqrt23 :: real where "sqrt23 = 81649658092773 / 100000000000000"

definition Lband :: int where "Lband = 8"
definition Kband :: int where "Kband = 8"

subsection \<open>Global variables\<close>

record SystemStruct =
  I :: real
  NZI0 :: real
  HFI0 :: real
  ReHFI2 :: "int \<Rightarrow> real"
  ImHFI2 :: "(int \<Rightarrow> real) option"
  Ib :: real
  NZI0b :: real
  HFI0b :: real
  ReHFI2b :: "int \<Rightarrow> real"
  ImHFI2b :: "(int \<Rightarrow> real) option"
  EZI0 :: real
  ReEZI2 :: "int \<Rightarrow> real"
  ImEZI2 :: "(int \<Rightarrow> real) option"
  d2psi :: "int \<Rightarrow> real"
  DirTilt :: real

record DiffusionStruct =
  xlk :: "int \<Rightarrow> real"
  Rxx :: real
  Ryy :: real
  Rzz :: real
  Exchange :: real
  maxL :: int

text \<open>
  The configuration that \<^verbatim>\<open>makematrix\<close> and \<^verbatim>\<open>BasisSize\<close> read: the globals
  \<^verbatim>\<open>Sys\<close>, \<^verbatim>\<open>Diff\<close>, the basis truncation and the two allocation limits.
\<close>

record globals =
  Sys :: SystemStruct
  Diff :: DiffusionStruct
  Lemax :: int
  Lomax :: int
  Kmax :: int
  Mmax :: int
  jKmin :: int
  pSmin :: int
  pImax :: int
  pIbmax :: int
  deltaK :: int
  MeirovitchSymm :: int
  maxElements :: int
  maxRows :: int

subsection \<open>Results and loops\<close>

text \<open>
  \<^verbatim>\<open>mexErrMsgTxt\<close> ends the whole call: \<open>Fatal\<close> carries its message and the state
  that the call leaves behind. A computation that does not return is \<open>None\<close>.
\<close>

datatype 's res = Done 's | Fatal string 's

text \<open>
  The loop \<^verbatim>\<open>for (x = x0; x <= hi; x += step) body\<close>. With \<open>step \<le> 0\<close> it need not end,
  which is why it is a partial function. A \<^verbatim>\<open>continue\<close> in the body is the body
  returning its state unchanged.
\<close>

partial_function (option) for_loop ::
  "int \<Rightarrow> int \<Rightarrow> int \<Rightarrow> (int \<Rightarrow> 's \<Rightarrow> 's res option) \<Rightarrow> 's \<Rightarrow> 's res option" where
  "for_loop x hi step body s =
     (if x \<le> hi then
        (case body x s of
           None \<Rightarrow> None
         | Some (Fatal m s') \<Rightarrow> Some (Fatal m s')
         | Some (Done s') \<Rightarrow> for_loop (x + step) hi step body s')
      else Some (Done s))"

abbreviation continue :: "'s \<Rightarrow> 's res option" where
  "continue s \<equiv> Some (Done s)"

section \<open>BasisSize\<close>

text \<open>
  The ten nested loops of \<^verbatim>\<open>BasisSize\<close>, innermost first; the state is the counter
  \<^verbatim>\<open>iRow\<close>. Each definition is one \<^verbatim>\<open>for\<close> statement, named after its loop variable.
\<close>

definition BasisSize_qI1b :: "globals \<Rightarrow> int \<Rightarrow> int \<Rightarrow> int res option" where
  "BasisSize_qI1b g pI1b iRow =
     (let qI1bmax = c_int (2 * Ib (Sys g)) - \<bar>pI1b\<bar> in
      for_loop (- qI1bmax) qI1bmax 2 (\<lambda>qI1b iRow. Some (Done (iRow + 1))) iRow)"

definition BasisSize_pI1b :: "globals \<Rightarrow> int \<Rightarrow> int \<Rightarrow> int \<Rightarrow> int \<Rightarrow> int res option" where
  "BasisSize_pI1b g M1 pS1 pI1 iRow =
     for_loop (- pIbmax g) (pIbmax g) 1 (\<lambda>pI1b iRow.
       if MeirovitchSymm g \<noteq> 0 \<and> DirTilt (Sys g) = 0 \<and> (pI1 + pI1b + pS1 - 1) \<noteq> M1
       then continue iRow
       else BasisSize_qI1b g pI1b iRow) iRow"

definition BasisSize_qI1 :: "globals \<Rightarrow> int \<Rightarrow> int \<Rightarrow> int \<Rightarrow> int \<Rightarrow> int res option" where
  "BasisSize_qI1 g M1 pS1 pI1 iRow =
     (let qI1max = c_int (2 * I (Sys g)) - \<bar>pI1\<bar> in
      for_loop (- qI1max) qI1max 2 (\<lambda>qI1 iRow. BasisSize_pI1b g M1 pS1 pI1 iRow) iRow)"

definition BasisSize_pI1 :: "globals \<Rightarrow> int \<Rightarrow> int \<Rightarrow> int \<Rightarrow> int res option" where
  "BasisSize_pI1 g M1 pS1 iRow =
     for_loop (- pImax g) (pImax g) 1 (\<lambda>pI1 iRow. BasisSize_qI1 g M1 pS1 pI1 iRow) iRow"

definition BasisSize_qS1 :: "globals \<Rightarrow> int \<Rightarrow> int \<Rightarrow> int \<Rightarrow> int res option" where
  "BasisSize_qS1 g M1 pS1 iRow =
     (let qS1max = 1 - \<bar>pS1\<bar> in
      for_loop (- qS1max) qS1max 2 (\<lambda>qS1 iRow. BasisSize_pI1 g M1 pS1 iRow) iRow)"

definition BasisSize_pS1 :: "globals \<Rightarrow> int \<Rightarrow> int \<Rightarrow> int res option" where
  "BasisSize_pS1 g M1 iRow =
     for_loop (pSmin g) 1 1 (\<lambda>pS1 iRow. BasisSize_qS1 g M1 pS1 iRow) iRow"

definition BasisSize_M1 :: "globals \<Rightarrow> int \<Rightarrow> int \<Rightarrow> int res option" where
  "BasisSize_M1 g L1 iRow =
     (let M1max = mini (Mmax g) L1 in
      for_loop (- M1max) M1max 1 (\<lambda>M1 iRow. BasisSize_pS1 g M1 iRow) iRow)"

text \<open>The test of this loop is written with the bitwise \<^verbatim>\<open>&\<close> on the two truth values.\<close>

definition BasisSize_K1 :: "globals \<Rightarrow> int \<Rightarrow> int \<Rightarrow> int \<Rightarrow> int res option" where
  "BasisSize_K1 g L1 jK1 iRow =
     (let K1max = mini (Kmax g) L1 in
      for_loop 0 K1max (deltaK g) (\<lambda>K1 iRow.
        if (of_bool (K1 = 0) AND of_bool (parity L1 \<noteq> jK1)) \<noteq> (0::int)
        then continue iRow
        else BasisSize_M1 g L1 iRow) iRow)"

definition BasisSize_jK1 :: "globals \<Rightarrow> int \<Rightarrow> int \<Rightarrow> int res option" where
  "BasisSize_jK1 g L1 iRow =
     for_loop (jKmin g) 1 2 (\<lambda>jK1 iRow. BasisSize_K1 g L1 jK1 iRow) iRow"

definition BasisSize_L1 :: "globals \<Rightarrow> int \<Rightarrow> int res option" where
  "BasisSize_L1 g iRow =
     for_loop 0 (Lemax g) 1 (\<lambda>L1 iRow.
       if isodd L1 \<noteq> 0 \<and> L1 > Lomax g then continue iRow
       else BasisSize_jK1 g L1 iRow) iRow"

text \<open>\<^verbatim>\<open>BasisSize\<close> has no call of \<^verbatim>\<open>mexErrMsgTxt\<close>: it returns the counter or runs forever.\<close>

definition BasisSize :: "globals \<Rightarrow> int option" where
  "BasisSize g =
     (case BasisSize_L1 g 0 of
        Some (Done iRow) \<Rightarrow> Some iRow
      | _ \<Rightarrow> None)"

section \<open>makematrix: the matrix element of one row/column pair\<close>

text \<open>
  A basis index is the tuple of the ten loop variables
  \<open>(L, jK, K, M, pS, qS, pI, qI, pIb, qIb)\<close>.
\<close>

type_synonym qn = "int \<times> int \<times> int \<times> int \<times> int \<times> int \<times> int \<times> int \<times> int \<times> int"

text \<open>
  The source computes the following quantities once per iteration of the loop that fixes
  their arguments and reads them further inside (\<^verbatim>\<open>IsoDiffKdiag\<close> in the \<^verbatim>\<open>K1\<close> loop,
  \<^verbatim>\<open>N_L\<close> in the \<^verbatim>\<open>L2\<close> loop, \<^verbatim>\<open>R_EZI2\<close>, \<^verbatim>\<open>N_K\<close>, \<^verbatim>\<open>NormFactor\<close> and
  \<^verbatim>\<open>PotDiff\<close> in the \<^verbatim>\<open>K2\<close> loop, \<^verbatim>\<open>Liou3j\<close> in the \<^verbatim>\<open>M2\<close> loop). They depend on the
  globals and the loop variables only, so the model makes each a function of those.
\<close>

subsection \<open>Potential-independent part of the diffusion operator (lines 142 to 151)\<close>

definition RhombicDiff :: "globals \<Rightarrow> bool" where
  "RhombicDiff g = (Rxx (Diff g) \<noteq> Ryy (Diff g))"

definition IsoDiffKdiag :: "globals \<Rightarrow> int \<Rightarrow> int \<Rightarrow> real" where
  "IsoDiffKdiag g L1 K1 =
     (Rxx (Diff g) + Ryy (Diff g)) / 2 * of_int (L1 * (L1 + 1))
     + of_int (K1 * K1) * (Rzz (Diff g) - (Rxx (Diff g) + Ryy (Diff g)) / 2)"

definition IsoDiffKm2 :: "globals \<Rightarrow> int \<Rightarrow> int \<Rightarrow> real" where
  "IsoDiffKm2 g L1 K1 =
     (if RhombicDiff g then
        (let KK = K1 - 2 in
         (Rxx (Diff g) - Ryy (Diff g)) / 4
           * sqrt (of_int ((L1 - KK - 1) * (L1 - KK) * (L1 + KK + 1) * (L1 + KK + 2))))
      else 0)"

definition IsoDiffKp2 :: "globals \<Rightarrow> int \<Rightarrow> int \<Rightarrow> real" where
  "IsoDiffKp2 g L1 K1 =
     (if RhombicDiff g then
        (let KK = K1 + 2 in
         (Rxx (Diff g) - Ryy (Diff g)) / 4
           * sqrt (of_int ((L1 + KK - 1) * (L1 + KK) * (L1 - KK + 1) * (L1 - KK + 2))))
      else 0)"

subsection \<open>Reduced rank-2 couplings (lines 197 to 231)\<close>

text \<open>
  The source computes \<^verbatim>\<open>R_EZI2\<close>, \<^verbatim>\<open>R_HFI2\<close> and \<^verbatim>\<open>R_HFI2b\<close> side by side with the same
  formula on the three tensors; \<open>ReT\<close> and \<open>ImT\<close> are the real and the imaginary array of
  one of them.
\<close>

definition R_rank2 ::
  "wigner3j \<Rightarrow> (int \<Rightarrow> real) \<Rightarrow> (int \<Rightarrow> real) option \<Rightarrow>
   int \<Rightarrow> int \<Rightarrow> int \<Rightarrow> int \<Rightarrow> int \<Rightarrow> int \<Rightarrow> real" where
  "R_rank2 jjj ReT ImT L1 jK1 K1 L2 jK2 K2 =
     (let Ld = L1 - L2; Kd = K1 - K2; Ks = K1 + K2; parityLK2 = parity (L2 + K2) in
      if \<bar>Ld\<bar> \<le> 2 then
        (let x1 = (if \<bar>Kd\<bar> \<le> 2 then
                     (let coeff = jjj L1 2 L2 K1 (- Kd) (- K2) in
                      if jK1 = jK2 then coeff * ReT (Kd + 2)
                      else (case ImT of
                              Some im \<Rightarrow> coeff * im (Kd + 2) * of_int jK1
                            | None \<Rightarrow> 0))
                   else 0);
             x2 = (if \<bar>Ks\<bar> \<le> 2 then
                     (let coeff = jjj L1 2 L2 K1 (- Ks) K2 in
                      if jK1 = jK2 then coeff * ReT (Ks + 2)
                      else (case ImT of
                              Some im \<Rightarrow> coeff * im (Ks + 2) * of_int jK1
                            | None \<Rightarrow> 0))
                   else 0)
         in x1 + of_int (jK2 * parityLK2) * x2)
      else 0)"

definition R_EZI2 :: "wigner3j \<Rightarrow> globals \<Rightarrow> int \<Rightarrow> int \<Rightarrow> int \<Rightarrow> int \<Rightarrow> int \<Rightarrow> int \<Rightarrow> real" where
  "R_EZI2 jjj g = R_rank2 jjj (ReEZI2 (Sys g)) (ImEZI2 (Sys g))"

definition R_HFI2 :: "wigner3j \<Rightarrow> globals \<Rightarrow> int \<Rightarrow> int \<Rightarrow> int \<Rightarrow> int \<Rightarrow> int \<Rightarrow> int \<Rightarrow> real" where
  "R_HFI2 jjj g = R_rank2 jjj (ReHFI2 (Sys g)) (ImHFI2 (Sys g))"

definition R_HFI2b :: "wigner3j \<Rightarrow> globals \<Rightarrow> int \<Rightarrow> int \<Rightarrow> int \<Rightarrow> int \<Rightarrow> int \<Rightarrow> int \<Rightarrow> real" where
  "R_HFI2b jjj g = R_rank2 jjj (ReHFI2b (Sys g)) (ImHFI2b (Sys g))"

subsection \<open>Normalisation factors (lines 178 and 233 to 239)\<close>

definition N_L :: "int \<Rightarrow> int \<Rightarrow> real" where
  "N_L L1 L2 = sqrt ((2 * of_int L1 + 1) * (2 * of_int L2 + 1))"

definition N_K :: "int \<Rightarrow> int \<Rightarrow> real" where
  "N_K K1 K2 =
     (let n = 1;
          n = (if K1 = 0 then n / sqrt 2 else n);
          n = (if K2 = 0 then n / sqrt 2 else n)
      in n)"

definition NormFactor :: "int \<Rightarrow> int \<Rightarrow> int \<Rightarrow> int \<Rightarrow> int \<Rightarrow> real" where
  "NormFactor L1 K1 M1 L2 K2 = N_L L1 L2 * N_K K1 K2 * of_int (parity (M1 + K1))"

subsection \<open>Potential-dependent term of the diffusion operator (lines 245 to 271)\<close>

definition Potential :: "globals \<Rightarrow> bool" where
  "Potential g = (maxL (Diff g) \<ge> 0)"

text \<open>The loop \<^verbatim>\<open>for (L=0; L<=Lband; L+=2)\<close> that accumulates \<^verbatim>\<open>PotDiff\<close>.\<close>

function PotDiff_loop ::
  "wigner3j \<Rightarrow> globals \<Rightarrow> int \<Rightarrow> int \<Rightarrow> int \<Rightarrow> int \<Rightarrow> int \<Rightarrow> int \<Rightarrow> int \<Rightarrow> real \<Rightarrow> real" where
  "PotDiff_loop jjj g L1 K1 M1 L2 jK2 K2 L PotDiff =
     (if L \<le> Lband then
        (let Kd = K1 - K2; Ks = K1 + K2; parityLK2 = parity (L2 + K2);
             Term1 = (if Kd \<ge> - L then
                        (let X = xlk (Diff g) ((Kd + L) * (maxL (Diff g) + 1) + L) in
                         if X \<noteq> 0 then X * jjj L1 L L2 K1 (- Kd) (- K2) else 0)
                      else 0);
             Term2 = (if Ks \<le> L then
                        (let X = xlk (Diff g) ((Ks + L) * (maxL (Diff g) + 1) + L) in
                         if X \<noteq> 0
                         then of_int (parityLK2 * jK2) * X * jjj L1 L L2 K1 (- Ks) K2
                         else 0)
                      else 0);
             PotDiff = (if Term1 \<noteq> 0 \<or> Term2 \<noteq> 0
                        then PotDiff + (Term1 + Term2) * jjj L1 L L2 M1 0 (- M1)
                        else PotDiff)
         in PotDiff_loop jjj g L1 K1 M1 L2 jK2 K2 (L + 2) PotDiff)
      else PotDiff)"
  by pat_completeness auto
termination
  by (relation "measure (\<lambda>(jjj, g, L1, K1, M1, L2, jK2, K2, L, PotDiff). nat (Lband + 2 - L))")
     auto

definition PotDiff :: "wigner3j \<Rightarrow> globals \<Rightarrow> int \<Rightarrow> int \<Rightarrow> int \<Rightarrow> int \<Rightarrow> int \<Rightarrow> int \<Rightarrow> int \<Rightarrow> real" where
  "PotDiff jjj g L1 jK1 K1 M1 L2 jK2 K2 =
     (let Ld = L1 - L2; jKd = jK1 - jK2; Kd = K1 - K2; Ks = K1 + K2 in
      if Potential g then
        (if \<bar>Ld\<bar> \<le> Lband \<and> parity Ks = 1 \<and> jKd = 0 \<and> \<bar>Kd\<bar> \<le> Kband \<and> \<bar>Ks\<bar> \<le> Kband
         then PotDiff_loop jjj g L1 K1 M1 L2 jK2 K2 0 0 * NormFactor L1 K1 M1 L2 K2
         else 0)
      else 0)"

subsection \<open>Matrix element of the Liouville operator (lines 326 to 453)\<close>

text \<open>Electronic Zeeman interaction, lines 341 to 358.\<close>

definition Liouville_EZI ::
  "real \<Rightarrow> real \<Rightarrow> real \<Rightarrow> real \<Rightarrow> bool \<Rightarrow> int \<Rightarrow> int \<Rightarrow> int \<Rightarrow> real" where
  "Liouville_EZI NormFactor' d2jjj R_EZI2' EZI0' includeRank0 pS1 pSd qSd =
     (let (C2, S_g) = (if pSd = 0 then (sqrt23, of_int pS1)
                       else (sqrt12, of_int (- qSd) / sqrt 2));
          C0 = - sqrt13
      in NormFactor' * d2jjj * R_EZI2' * (C2 * S_g)
         + (if includeRank0 then EZI0' * (C0 * of_int pS1) else 0))"

text \<open>
  Hyperfine interaction of one nucleus. Lines 362 to 400 (nucleus 1) and 404 to 442
  (nucleus b) are the same statements on \<^verbatim>\<open>I, pI1, qI1, pId, qId, R_HFI2, HFI0\<close> and on
  \<^verbatim>\<open>Ib, pI1b, qI1b, pIbd, qIbd, R_HFI2b, HFI0b\<close>.
\<close>

definition Liouville_HFI ::
  "real \<Rightarrow> real \<Rightarrow> real \<Rightarrow> real \<Rightarrow> bool \<Rightarrow> real \<Rightarrow>
   int \<Rightarrow> int \<Rightarrow> int \<Rightarrow> int \<Rightarrow> int \<Rightarrow> int \<Rightarrow> int \<Rightarrow> int \<Rightarrow> real" where
  "Liouville_HFI NormFactor' d2jjj R_HFI2' HFI0' includeRank0 spin pS1 qS1 pI1 qI1 pSd qSd pId qId =
     (let (C0, C2, S_A) =
        (if pId = 0 then
           (if pSd = 0 then (- sqrt13, sqrt23, of_int (pS1 * qI1 + pI1 * qS1) / 2)
            else (0, sqrt12, of_int (- (pI1 * pSd + qI1 * qSd)) / sqrt 8))
         else
           (let t = qI1 * qId + pI1 * pId;
                KI = sqrt (spin * (spin + 1) - of_int t * (of_int t - 2) / 4)
            in if pSd = 0 then (0, sqrt12, of_int (- (pS1 * pId + qS1 * qId)) * KI / sqrt 8)
               else (sqrt13, (if pSd + pId = 0 then sqrt (1 / 6) else 1),
                     of_int (pSd * qId) * KI / 2)))
      in NormFactor' * d2jjj * R_HFI2' * (C2 * S_A)
         + (if includeRank0 then HFI0' * (C0 * S_A) else 0))"

text \<open>
  The statements that compute \<^verbatim>\<open>LiouvilleElement\<close>, as a function of the value
  \<open>NormFactor'\<close> that the variable \<^verbatim>\<open>NormFactor\<close> holds when they run.
\<close>

definition Liouville_terms :: "real \<Rightarrow> wigner3j \<Rightarrow> globals \<Rightarrow> qn \<Rightarrow> qn \<Rightarrow> real" where
  "Liouville_terms NormFactor' jjj g r c =
     (case r of (L1, jK1, K1, M1, pS1, qS1, pI1, qI1, pI1b, qI1b) \<Rightarrow>
      case c of (L2, jK2, K2, M2, pS2, qS2, pI2, qI2, pI2b, qI2b) \<Rightarrow>
      (let Ld = L1 - L2; Ld2 = (\<bar>Ld\<bar> \<le> 2);
           jKd = jK1 - jK2;
           diagLK = (L1 = L2 \<and> K1 = K2);
           Md = M1 - M2;
           diagLKM = (diagLK \<and> jKd = 0 \<and> Md = 0);
           Liou3j = (if Ld2 then jjj L1 2 L2 M1 (- Md) (- M2) else 0);
           pSd = pS1 - pS2; qSd = qS1 - qS2;
           diagS = (pS1 = pS2 \<and> qS1 = qS2);
           pId = pI1 - pI2; qId = qI1 - qI2;
           pIbd = pI1b - pI2b; qIbd = qI1b - qI2b;
           diagI = (pId = 0 \<and> qId = 0 \<and> pIbd = 0 \<and> qIbd = 0);
           pd = pSd + pId + pIbd
       in
       if Ld2 \<and> \<bar>Md\<bar> \<le> 2 \<and> (DirTilt (Sys g) \<noteq> 0 \<or> pd = Md)
          \<and> \<bar>pSd\<bar> \<le> 1 \<and> \<bar>pId\<bar> \<le> 1 \<and> \<bar>pIbd\<bar> \<le> 1
          \<and> \<bar>pSd\<bar> = \<bar>qSd\<bar> \<and> \<bar>pId\<bar> = \<bar>qId\<bar> \<and> \<bar>pIbd\<bar> = \<bar>qIbd\<bar>
       then
         (let includeRank0 = (diagLKM \<and> pd = 0);
              d2jjj = d2psi (Sys g) ((pd + 2) + (Md + 2) * 5) * Liou3j
          in
            (if diagI
             then Liouville_EZI NormFactor' d2jjj (R_EZI2 jjj g L1 jK1 K1 L2 jK2 K2)
                    (EZI0 (Sys g)) includeRank0 pS1 pSd qSd
             else 0)
          + (if I (Sys g) > 0 \<and> pSd * pId = qSd * qId \<and> pIbd = 0 \<and> qIbd = 0
             then Liouville_HFI NormFactor' d2jjj (R_HFI2 jjj g L1 jK1 K1 L2 jK2 K2)
                    (HFI0 (Sys g)) includeRank0 (I (Sys g)) pS1 qS1 pI1 qI1 pSd qSd pId qId
             else 0)
          + (if Ib (Sys g) > 0 \<and> pSd * pIbd = qSd * qIbd \<and> pId = 0 \<and> qId = 0
             then Liouville_HFI NormFactor' d2jjj (R_HFI2b jjj g L1 jK1 K1 L2 jK2 K2)
                    (HFI0b (Sys g)) includeRank0 (Ib (Sys g)) pS1 qS1 pI1b qI1b pSd qSd pIbd qIbd
             else 0)
          + (if diagS \<and> diagI \<and> includeRank0
             then (let C0 = - sqrt13 in
                   NZI0 (Sys g) * C0 * of_int pI1 + NZI0b (Sys g) * C0 * of_int pI1b)
             else 0))
       else 0))"

text \<open>\<^verbatim>\<open>NormFactor\<close> was assigned in the \<^verbatim>\<open>K2\<close> loop, line 239.\<close>

definition LiouvilleElement :: "wigner3j \<Rightarrow> globals \<Rightarrow> qn \<Rightarrow> qn \<Rightarrow> real" where
  "LiouvilleElement jjj g r c =
     (case r of (L1, jK1, K1, M1, pS1, qS1, pI1, qI1, pI1b, qI1b) \<Rightarrow>
      case c of (L2, jK2, K2, M2, pS2, qS2, pI2, qI2, pI2b, qI2b) \<Rightarrow>
        Liouville_terms (NormFactor L1 K1 M1 L2 K2) jjj g r c)"

subsection \<open>Matrix element of the diffusion superoperator (lines 460 to 484)\<close>

definition ExchangePresent :: "globals \<Rightarrow> bool" where
  "ExchangePresent g = (Exchange (Diff g) \<noteq> 0)"

definition GammaElement :: "wigner3j \<Rightarrow> globals \<Rightarrow> qn \<Rightarrow> qn \<Rightarrow> real" where
  "GammaElement jjj g r c =
     (case r of (L1, jK1, K1, M1, pS1, qS1, pI1, qI1, pI1b, qI1b) \<Rightarrow>
      case c of (L2, jK2, K2, M2, pS2, qS2, pI2, qI2, pI2b, qI2b) \<Rightarrow>
      (let Ld = L1 - L2; jKd = jK1 - jK2; Kd = K1 - K2;
           diagLK = (L1 = L2 \<and> K1 = K2);
           Md = M1 - M2;
           diagLKM = (diagLK \<and> jKd = 0 \<and> Md = 0);
           pSd = pS1 - pS2; qSd = qS1 - qS2;
           diagS = (pS1 = pS2 \<and> qS1 = qS2);
           pId = pI1 - pI2; qId = qI1 - qI2;
           pIbd = pI1b - pI2b; qIbd = qI1b - qI2b;
           diagI = (pId = 0 \<and> qId = 0 \<and> pIbd = 0 \<and> qIbd = 0)
       in
         (if diagS \<and> diagI then
            (if Ld = 0 \<and> Md = 0 \<and> jKd = 0 then
               (if Kd = 0 then IsoDiffKdiag g L1 K1
                else if Kd = 2 then IsoDiffKm2 g L1 K1 / N_K K1 K2
                else if Kd = - 2 then IsoDiffKp2 g L1 K1 / N_K K1 K2
                else 0)
             else 0)
            + (if Potential g then
                 (if Md = 0 \<and> jKd = 0 then PotDiff jjj g L1 jK1 K1 M1 L2 jK2 K2 else 0)
               else 0)
          else 0)
       + (if ExchangePresent g then
            (if pSd = 0 \<and> pId = 0 \<and> pIbd = 0 \<and> diagLKM then
               (let t = 0;
                    t = (if qId = 0 \<and> qIbd = 0 \<and> qSd = 0 then t + 1 else t);
                    t = (if qId = 0 \<and> qIbd = 0 \<and> pS1 = 0 then t - 1 / 2 else t);
                    t = (if pI1 = 0 \<and> pI1b = 0 \<and> qSd = 0
                         then t - 1 / (2 * I (Sys g) + 1) / (2 * Ib (Sys g) + 1) else t)
                in t * Exchange (Diff g))
             else 0)
          else 0)))"

section \<open>makematrix: storing the elements\<close>

text \<open>
  The variables that \<^verbatim>\<open>makematrix\<close> changes: its counters \<^verbatim>\<open>iRow\<close>, \<^verbatim>\<open>iCol\<close>,
  \<^verbatim>\<open>iElement\<close>, the flag \<^verbatim>\<open>diagRC\<close>, the four output arrays and the globals \<^verbatim>\<open>nRows\<close>
  and \<^verbatim>\<open>nElements\<close>. An output array is the map from an offset to the value that this
  call has written there. The arrays are allocated with \<^verbatim>\<open>maxElements\<close> cells, and C does
  not check an offset: a write at an offset outside \<open>0 ..< maxElements\<close> is recorded as
  it is, so that the model shows where the code writes.
\<close>

record mm_state =
  iRow :: int
  iCol :: int
  iElement :: int
  diagRC :: bool
  ridx :: "int \<rightharpoonup> real"
  cidx :: "int \<rightharpoonup> real"
  MatrixRe :: "int \<rightharpoonup> real"
  MatrixIm :: "int \<rightharpoonup> real"
  nRows :: int
  nElements :: int

text \<open>The four assignments and the increment of lines 492 to 496 (and 498 to 502).\<close>

definition write_element :: "int \<Rightarrow> int \<Rightarrow> real \<Rightarrow> real \<Rightarrow> mm_state \<Rightarrow> mm_state" where
  "write_element row col re im s =
     s\<lparr> MatrixRe := (MatrixRe s)(iElement s \<mapsto> re),
        MatrixIm := (MatrixIm s)(iElement s \<mapsto> im),
        ridx := (ridx s)(iElement s \<mapsto> of_int row),
        cidx := (cidx s)(iElement s \<mapsto> of_int col),
        iElement := iElement s + 1 \<rparr>"

text \<open>Lines 491 to 506.\<close>

definition store_element :: "globals \<Rightarrow> real \<Rightarrow> real \<Rightarrow> mm_state \<Rightarrow> mm_state res" where
  "store_element g GammaElement' LiouvilleElement' s =
     (if GammaElement' \<noteq> 0 \<or> LiouvilleElement' \<noteq> 0 then
        (let s = write_element (iRow s) (iCol s) GammaElement' (- LiouvilleElement') s;
             s = (if \<not> diagRC s
                  then write_element (iCol s) (iRow s) GammaElement' (- LiouvilleElement') s
                  else s)
         in if iElement s \<ge> maxElements g
            then Fatal ''Number of non-zero elements too large. Increase Opt.Allocation(1).'' s
            else Done s)
      else Done s)"

text \<open>Lines 509 to 512.\<close>

definition next_column :: "globals \<Rightarrow> mm_state \<Rightarrow> mm_state res" where
  "next_column g s =
     (let s = s\<lparr> iCol := iCol s + 1, diagRC := False \<rparr>
      in if iCol s \<ge> maxRows g
         then Fatal ''Dimension too large. Increase Opt.Allocation(2).'' s
         else Done s)"

text \<open>The body of the innermost loop, lines 308 to 512, for row \<open>r\<close> and column \<open>c\<close>.\<close>

definition column_body :: "wigner3j \<Rightarrow> globals \<Rightarrow> qn \<Rightarrow> qn \<Rightarrow> mm_state \<Rightarrow> mm_state res option" where
  "column_body jjj g r c s =
     (case store_element g (GammaElement jjj g r c) (LiouvilleElement jjj g r c) s of
        Fatal m s' \<Rightarrow> Some (Fatal m s')
      | Done s' \<Rightarrow> Some (next_column g s'))"

section \<open>makematrix: the column loops (lines 171 to 524)\<close>

text \<open>
  The ten column loops for the row \<open>r\<close>, innermost first. Each lower bound is read from
  \<^verbatim>\<open>diagRC\<close> immediately before its loop starts, as in the source.
\<close>

fun makematrix_qI2b ::
  "wigner3j \<Rightarrow> globals \<Rightarrow> qn \<Rightarrow> int \<Rightarrow> int \<Rightarrow> int \<Rightarrow> int \<Rightarrow> int \<Rightarrow> int \<Rightarrow> int \<Rightarrow> int \<Rightarrow> int \<Rightarrow>
   mm_state \<Rightarrow> mm_state res option" where
  "makematrix_qI2b jjj g (L1, jK1, K1, M1, pS1, qS1, pI1, qI1, pI1b, qI1b) L2 jK2 K2 M2 pS2 qS2 pI2 qI2 pI2b s =
     (let qI2bmax = c_int (2 * Ib (Sys g)) - \<bar>pI2b\<bar>;
          qI2bmin = (if diagRC s then qI1b else - qI2bmax)
      in for_loop qI2bmin qI2bmax 2 (\<lambda>qI2b s.
           column_body jjj g (L1, jK1, K1, M1, pS1, qS1, pI1, qI1, pI1b, qI1b)
             (L2, jK2, K2, M2, pS2, qS2, pI2, qI2, pI2b, qI2b) s) s)"

fun makematrix_pI2b ::
  "wigner3j \<Rightarrow> globals \<Rightarrow> qn \<Rightarrow> int \<Rightarrow> int \<Rightarrow> int \<Rightarrow> int \<Rightarrow> int \<Rightarrow> int \<Rightarrow> int \<Rightarrow> int \<Rightarrow>
   mm_state \<Rightarrow> mm_state res option" where
  "makematrix_pI2b jjj g (L1, jK1, K1, M1, pS1, qS1, pI1, qI1, pI1b, qI1b) L2 jK2 K2 M2 pS2 qS2 pI2 qI2 s =
     (let pI2bmin = (if diagRC s then pI1b else - pIbmax g)
      in for_loop pI2bmin (pIbmax g) 1 (\<lambda>pI2b s.
           if MeirovitchSymm g \<noteq> 0 \<and> DirTilt (Sys g) = 0 \<and> (pI2 + pI2b + pS2 - 1) \<noteq> M2
           then continue s
           else makematrix_qI2b jjj g (L1, jK1, K1, M1, pS1, qS1, pI1, qI1, pI1b, qI1b) L2 jK2 K2 M2 pS2 qS2 pI2 qI2 pI2b s) s)"

fun makematrix_qI2 ::
  "wigner3j \<Rightarrow> globals \<Rightarrow> qn \<Rightarrow> int \<Rightarrow> int \<Rightarrow> int \<Rightarrow> int \<Rightarrow> int \<Rightarrow> int \<Rightarrow> int \<Rightarrow>
   mm_state \<Rightarrow> mm_state res option" where
  "makematrix_qI2 jjj g (L1, jK1, K1, M1, pS1, qS1, pI1, qI1, pI1b, qI1b) L2 jK2 K2 M2 pS2 qS2 pI2 s =
     (let qI2max = c_int (2 * I (Sys g)) - \<bar>pI2\<bar>;
          qI2min = (if diagRC s then qI1 else - qI2max)
      in for_loop qI2min qI2max 2 (\<lambda>qI2 s.
           makematrix_pI2b jjj g (L1, jK1, K1, M1, pS1, qS1, pI1, qI1, pI1b, qI1b) L2 jK2 K2 M2 pS2 qS2 pI2 qI2 s) s)"

fun makematrix_pI2 ::
  "wigner3j \<Rightarrow> globals \<Rightarrow> qn \<Rightarrow> int \<Rightarrow> int \<Rightarrow> int \<Rightarrow> int \<Rightarrow> int \<Rightarrow> int \<Rightarrow>
   mm_state \<Rightarrow> mm_state res option" where
  "makematrix_pI2 jjj g (L1, jK1, K1, M1, pS1, qS1, pI1, qI1, pI1b, qI1b) L2 jK2 K2 M2 pS2 qS2 s =
     (let pI2min = (if diagRC s then pI1 else - pImax g)
      in for_loop pI2min (pImax g) 1 (\<lambda>pI2 s.
           makematrix_qI2 jjj g (L1, jK1, K1, M1, pS1, qS1, pI1, qI1, pI1b, qI1b) L2 jK2 K2 M2 pS2 qS2 pI2 s) s)"

fun makematrix_qS2 ::
  "wigner3j \<Rightarrow> globals \<Rightarrow> qn \<Rightarrow> int \<Rightarrow> int \<Rightarrow> int \<Rightarrow> int \<Rightarrow> int \<Rightarrow>
   mm_state \<Rightarrow> mm_state res option" where
  "makematrix_qS2 jjj g (L1, jK1, K1, M1, pS1, qS1, pI1, qI1, pI1b, qI1b) L2 jK2 K2 M2 pS2 s =
     (let qS2max = 1 - \<bar>pS2\<bar>;
          qS2min = (if diagRC s then qS1 else - qS2max)
      in for_loop qS2min qS2max 2 (\<lambda>qS2 s.
           makematrix_pI2 jjj g (L1, jK1, K1, M1, pS1, qS1, pI1, qI1, pI1b, qI1b) L2 jK2 K2 M2 pS2 qS2 s) s)"

fun makematrix_pS2 ::
  "wigner3j \<Rightarrow> globals \<Rightarrow> qn \<Rightarrow> int \<Rightarrow> int \<Rightarrow> int \<Rightarrow> int \<Rightarrow>
   mm_state \<Rightarrow> mm_state res option" where
  "makematrix_pS2 jjj g (L1, jK1, K1, M1, pS1, qS1, pI1, qI1, pI1b, qI1b) L2 jK2 K2 M2 s =
     (let pS2min = (if diagRC s then pS1 else pSmin g)
      in for_loop pS2min 1 1 (\<lambda>pS2 s.
           makematrix_qS2 jjj g (L1, jK1, K1, M1, pS1, qS1, pI1, qI1, pI1b, qI1b) L2 jK2 K2 M2 pS2 s) s)"

fun makematrix_M2 ::
  "wigner3j \<Rightarrow> globals \<Rightarrow> qn \<Rightarrow> int \<Rightarrow> int \<Rightarrow> int \<Rightarrow>
   mm_state \<Rightarrow> mm_state res option" where
  "makematrix_M2 jjj g (L1, jK1, K1, M1, pS1, qS1, pI1, qI1, pI1b, qI1b) L2 jK2 K2 s =
     (let M2max = mini (Mmax g) L2;
          M2min = (if diagRC s then M1 else - M2max)
      in for_loop M2min M2max 1 (\<lambda>M2 s.
           makematrix_pS2 jjj g (L1, jK1, K1, M1, pS1, qS1, pI1, qI1, pI1b, qI1b) L2 jK2 K2 M2 s) s)"

fun makematrix_K2 ::
  "wigner3j \<Rightarrow> globals \<Rightarrow> qn \<Rightarrow> int \<Rightarrow> int \<Rightarrow> mm_state \<Rightarrow> mm_state res option" where
  "makematrix_K2 jjj g (L1, jK1, K1, M1, pS1, qS1, pI1, qI1, pI1b, qI1b) L2 jK2 s =
     (let K2max = mini (Kmax g) L2;
          K2min = (if diagRC s then K1 else 0)
      in for_loop K2min K2max (deltaK g) (\<lambda>K2 s.
           if K2 = 0 \<and> parity L2 \<noteq> jK2 then continue s
           else makematrix_M2 jjj g (L1, jK1, K1, M1, pS1, qS1, pI1, qI1, pI1b, qI1b) L2 jK2 K2 s) s)"

fun makematrix_jK2 ::
  "wigner3j \<Rightarrow> globals \<Rightarrow> qn \<Rightarrow> int \<Rightarrow> mm_state \<Rightarrow> mm_state res option" where
  "makematrix_jK2 jjj g (L1, jK1, K1, M1, pS1, qS1, pI1, qI1, pI1b, qI1b) L2 s =
     (let jK2min = (if diagRC s then jK1 else jKmin g)
      in for_loop jK2min 1 2 (\<lambda>jK2 s. makematrix_K2 jjj g (L1, jK1, K1, M1, pS1, qS1, pI1, qI1, pI1b, qI1b) L2 jK2 s) s)"

fun makematrix_L2 :: "wigner3j \<Rightarrow> globals \<Rightarrow> qn \<Rightarrow> mm_state \<Rightarrow> mm_state res option" where
  "makematrix_L2 jjj g (L1, jK1, K1, M1, pS1, qS1, pI1, qI1, pI1b, qI1b) s =
     (let L2max = mini (Lemax g) (L1 + Lband)
      in for_loop L1 L2max 1 (\<lambda>L2 s.
           if isodd L2 \<noteq> 0 \<and> L2 > Lomax g then continue s
           else makematrix_jK2 jjj g (L1, jK1, K1, M1, pS1, qS1, pI1, qI1, pI1b, qI1b) L2 s) s)"

section \<open>makematrix: the row loops (lines 132 to 167 and 526 to 541)\<close>

text \<open>
  What the innermost row loop does for the row \<open>r\<close>: lines 169 and 170, the column loops,
  and lines 526 to 528.
\<close>

definition row_body :: "wigner3j \<Rightarrow> globals \<Rightarrow> qn \<Rightarrow> mm_state \<Rightarrow> mm_state res option" where
  "row_body jjj g r s =
     (let s = s\<lparr> iCol := iRow s, diagRC := True \<rparr> in
      case makematrix_L2 jjj g r s of
        None \<Rightarrow> None
      | Some (Fatal m s') \<Rightarrow> Some (Fatal m s')
      | Some (Done s') \<Rightarrow>
          (let s' = s'\<lparr> iRow := iRow s' + 1 \<rparr>
           in if iRow s' \<ge> maxRows g
              then Some (Fatal ''Dimension too large. Increase Opt.Allocation(2).'' s')
              else Some (Done s')))"

definition makematrix_qI1b ::
  "wigner3j \<Rightarrow> globals \<Rightarrow> int \<Rightarrow> int \<Rightarrow> int \<Rightarrow> int \<Rightarrow> int \<Rightarrow> int \<Rightarrow> int \<Rightarrow> int \<Rightarrow> int \<Rightarrow>
   mm_state \<Rightarrow> mm_state res option" where
  "makematrix_qI1b jjj g L1 jK1 K1 M1 pS1 qS1 pI1 qI1 pI1b s =
     (let qI1bmax = c_int (2 * Ib (Sys g)) - \<bar>pI1b\<bar>
      in for_loop (- qI1bmax) qI1bmax 2 (\<lambda>qI1b s.
           row_body jjj g (L1, jK1, K1, M1, pS1, qS1, pI1, qI1, pI1b, qI1b) s) s)"

definition makematrix_pI1b ::
  "wigner3j \<Rightarrow> globals \<Rightarrow> int \<Rightarrow> int \<Rightarrow> int \<Rightarrow> int \<Rightarrow> int \<Rightarrow> int \<Rightarrow> int \<Rightarrow> int \<Rightarrow>
   mm_state \<Rightarrow> mm_state res option" where
  "makematrix_pI1b jjj g L1 jK1 K1 M1 pS1 qS1 pI1 qI1 s =
     for_loop (- pIbmax g) (pIbmax g) 1 (\<lambda>pI1b s.
       if MeirovitchSymm g \<noteq> 0 \<and> DirTilt (Sys g) = 0 \<and> (pI1 + pI1b + pS1 - M1) \<noteq> 1
       then continue s
       else makematrix_qI1b jjj g L1 jK1 K1 M1 pS1 qS1 pI1 qI1 pI1b s) s"

definition makematrix_qI1 ::
  "wigner3j \<Rightarrow> globals \<Rightarrow> int \<Rightarrow> int \<Rightarrow> int \<Rightarrow> int \<Rightarrow> int \<Rightarrow> int \<Rightarrow> int \<Rightarrow>
   mm_state \<Rightarrow> mm_state res option" where
  "makematrix_qI1 jjj g L1 jK1 K1 M1 pS1 qS1 pI1 s =
     (let qI1max = c_int (2 * I (Sys g)) - \<bar>pI1\<bar>
      in for_loop (- qI1max) qI1max 2 (\<lambda>qI1 s.
           makematrix_pI1b jjj g L1 jK1 K1 M1 pS1 qS1 pI1 qI1 s) s)"

definition makematrix_pI1 ::
  "wigner3j \<Rightarrow> globals \<Rightarrow> int \<Rightarrow> int \<Rightarrow> int \<Rightarrow> int \<Rightarrow> int \<Rightarrow> int \<Rightarrow>
   mm_state \<Rightarrow> mm_state res option" where
  "makematrix_pI1 jjj g L1 jK1 K1 M1 pS1 qS1 s =
     for_loop (- pImax g) (pImax g) 1 (\<lambda>pI1 s.
       makematrix_qI1 jjj g L1 jK1 K1 M1 pS1 qS1 pI1 s) s"

definition makematrix_qS1 ::
  "wigner3j \<Rightarrow> globals \<Rightarrow> int \<Rightarrow> int \<Rightarrow> int \<Rightarrow> int \<Rightarrow> int \<Rightarrow>
   mm_state \<Rightarrow> mm_state res option" where
  "makematrix_qS1 jjj g L1 jK1 K1 M1 pS1 s =
     (let qS1max = 1 - \<bar>pS1\<bar>
      in for_loop (- qS1max) qS1max 2 (\<lambda>qS1 s.
           makematrix_pI1 jjj g L1 jK1 K1 M1 pS1 qS1 s) s)"

definition makematrix_pS1 ::
  "wigner3j \<Rightarrow> globals \<Rightarrow> int \<Rightarrow> int \<Rightarrow> int \<Rightarrow> int \<Rightarrow> mm_state \<Rightarrow> mm_state res option" where
  "makematrix_pS1 jjj g L1 jK1 K1 M1 s =
     for_loop (pSmin g) 1 1 (\<lambda>pS1 s. makematrix_qS1 jjj g L1 jK1 K1 M1 pS1 s) s"

definition makematrix_M1 ::
  "wigner3j \<Rightarrow> globals \<Rightarrow> int \<Rightarrow> int \<Rightarrow> int \<Rightarrow> mm_state \<Rightarrow> mm_state res option" where
  "makematrix_M1 jjj g L1 jK1 K1 s =
     (let M1max = mini (Mmax g) L1
      in for_loop (- M1max) M1max 1 (\<lambda>M1 s. makematrix_pS1 jjj g L1 jK1 K1 M1 s) s)"

definition makematrix_K1 ::
  "wigner3j \<Rightarrow> globals \<Rightarrow> int \<Rightarrow> int \<Rightarrow> mm_state \<Rightarrow> mm_state res option" where
  "makematrix_K1 jjj g L1 jK1 s =
     (let K1max = mini (Kmax g) L1
      in for_loop 0 K1max (deltaK g) (\<lambda>K1 s.
           if K1 = 0 \<and> parity L1 \<noteq> jK1 then continue s
           else makematrix_M1 jjj g L1 jK1 K1 s) s)"

definition makematrix_jK1 ::
  "wigner3j \<Rightarrow> globals \<Rightarrow> int \<Rightarrow> mm_state \<Rightarrow> mm_state res option" where
  "makematrix_jK1 jjj g L1 s =
     for_loop (jKmin g) 1 2 (\<lambda>jK1 s. makematrix_K1 jjj g L1 jK1 s) s"

definition makematrix_L1 :: "wigner3j \<Rightarrow> globals \<Rightarrow> mm_state \<Rightarrow> mm_state res option" where
  "makematrix_L1 jjj g s =
     for_loop 0 (Lemax g) 1 (\<lambda>L1 s.
       if isodd L1 \<noteq> 0 \<and> L1 > Lomax g then continue s
       else makematrix_jK1 jjj g L1 s) s"

text \<open>
  The state at the entry of \<^verbatim>\<open>makematrix\<close>: the three counters are initialised to 0 and
  no cell has been written. \<^verbatim>\<open>diagRC\<close> is not initialised in the source; it is assigned
  before it is first read, so its value here has no effect.
\<close>

definition mm_init :: mm_state where
  "mm_init =
     \<lparr> iRow = 0, iCol = 0, iElement = 0, diagRC = False,
       ridx = Map.empty, cidx = Map.empty, MatrixRe = Map.empty, MatrixIm = Map.empty,
       nRows = 0, nElements = 0 \<rparr>"

definition makematrix :: "wigner3j \<Rightarrow> globals \<Rightarrow> mm_state res option" where
  "makematrix jjj g =
     (case makematrix_L1 jjj g mm_init of
        None \<Rightarrow> None
      | Some (Fatal m s) \<Rightarrow> Some (Fatal m s)
      | Some (Done s) \<Rightarrow> Some (Done (s\<lparr> nRows := iRow s, nElements := iElement s \<rparr>)))"

section \<open>mexFunction\<close>

text \<open>
  The four arguments \<^verbatim>\<open>prhs[0..3]\<close> as the code reads them: the fields of the system
  structure, the array of basis options, the fields of the diffusion structure, and the array
  of allocation options. Reading a field does not fail in the model.
\<close>

record DiffusionInput =
  in_Exchange :: real
  in_xlk :: "int \<Rightarrow> real"
  in_maxL :: real
  in_Diff :: "int \<Rightarrow> real"

record mex_args =
  prhs_Sys :: SystemStruct
  basisopts :: "int \<Rightarrow> real"
  prhs_Diff :: DiffusionInput
  allocationOptions :: "int \<Rightarrow> real"

text \<open>
  The globals persist from one call to the next, so \<^verbatim>\<open>mexFunction\<close> takes their old
  values and leaves the new ones; \<open>plhs\<close> is the state of \<^verbatim>\<open>makematrix\<close> from which the
  five outputs are read, or \<open>None\<close> while no output has been created.
\<close>

record mex_state =
  glob :: globals
  plhs :: "mm_state option"

text \<open>Lines 623 to 698: the assignments that copy the arguments into the globals.\<close>

definition parse_args :: "mex_args \<Rightarrow> globals \<Rightarrow> globals" where
  "parse_args a g =
     g\<lparr> Sys := prhs_Sys a,
        Lemax := c_int (basisopts a 0),
        Lomax := c_int (basisopts a 1),
        Kmax := c_int (basisopts a 2),
        Mmax := c_int (basisopts a 3),
        jKmin := c_int (basisopts a 4),
        pSmin := c_int (basisopts a 5),
        deltaK := c_int (basisopts a 6),
        MeirovitchSymm := c_int (basisopts a 7),
        pImax := c_int (basisopts a 8),
        pIbmax := c_int (basisopts a 9),
        Diff := \<lparr> xlk = in_xlk (prhs_Diff a),
                  Rxx = in_Diff (prhs_Diff a) 0,
                  Ryy = in_Diff (prhs_Diff a) 1,
                  Rzz = in_Diff (prhs_Diff a) 2,
                  Exchange = in_Exchange (prhs_Diff a),
                  maxL = c_int (in_maxL (prhs_Diff a)) \<rparr>,
        maxElements := c_int (allocationOptions a 0),
        maxRows := c_int (allocationOptions a 1) \<rparr>"

definition mexFunction ::
  "wigner3j \<Rightarrow> int \<Rightarrow> int \<Rightarrow> mex_args \<Rightarrow> globals \<Rightarrow> mex_state res option" where
  "mexFunction jjj nlhs nrhs a g0 =
     (if nrhs = 1 then Some (Done \<lparr> glob = g0, plhs = None \<rparr>)
      else if nrhs \<noteq> 4
      then Some (Fatal ''4 input arguments expected!'' \<lparr> glob = g0, plhs = None \<rparr>)
      else if nlhs \<noteq> 5
      then Some (Fatal ''3 output arguments expected!'' \<lparr> glob = g0, plhs = None \<rparr>)
      else
        (let g = parse_args a g0 in
         case BasisSize g of
           None \<Rightarrow> None
         | Some N \<Rightarrow>
             (let g = g\<lparr> maxRows := N + 1 \<rparr> in
              case makematrix jjj g of
                None \<Rightarrow> None
              | Some (Fatal m s) \<Rightarrow> Some (Fatal m \<lparr> glob = g, plhs = Some s \<rparr>)
              | Some (Done s) \<Rightarrow> Some (Done \<lparr> glob = g, plhs = Some s \<rparr>))))"

section \<open>The enumeration of basis indices as a list\<close>

text \<open>
  The values that the variable of \<^verbatim>\<open>for (x = x0; x <= hi; x += step)\<close> takes when
  \<open>step\<close> is positive, and the same loop over an explicit list of values.
\<close>

function c_range :: "int \<Rightarrow> int \<Rightarrow> int \<Rightarrow> int list" where
  "c_range x hi step = (if 0 < step \<and> x \<le> hi then x # c_range (x + step) hi step else [])"
  by pat_completeness auto
termination
  by (relation "measure (\<lambda>(x, hi, step). nat (hi + 1 - x))") auto

fun for_list :: "('a \<Rightarrow> 's \<Rightarrow> 's res option) \<Rightarrow> 'a list \<Rightarrow> 's \<Rightarrow> 's res option" where
  "for_list body [] s = Some (Done s)"
| "for_list body (x # xs) s =
     (case body x s of
        None \<Rightarrow> None
      | Some (Fatal m s') \<Rightarrow> Some (Fatal m s')
      | Some (Done s') \<Rightarrow> for_list body xs s')"

text \<open>One loop around an inner enumeration: the pairs in the order of the nested loops.\<close>

definition nest :: "int list \<Rightarrow> (int \<Rightarrow> 'b list) \<Rightarrow> (int \<times> 'b) list" where
  "nest xs inner = concat (map (\<lambda>x. map (Pair x) (inner x)) xs)"

section \<open>Concrete inputs\<close>

text \<open>A system without nuclei and with all magnetic interactions zero.\<close>

definition sys_zero :: SystemStruct where
  "sys_zero =
     \<lparr> I = 0, NZI0 = 0, HFI0 = 0, ReHFI2 = (\<lambda>_. 0), ImHFI2 = None,
       Ib = 0, NZI0b = 0, HFI0b = 0, ReHFI2b = (\<lambda>_. 0), ImHFI2b = None,
       EZI0 = 0, ReEZI2 = (\<lambda>_. 0), ImEZI2 = None,
       d2psi = (\<lambda>_. 0), DirTilt = 0 \<rparr>"

text \<open>
  Basis options \<open>Lemax = Lomax = Kmax = Mmax = 0\<close>, \<open>jKmin = 1\<close>, \<open>pSmin = 0\<close>,
  \<open>deltaK = 1\<close>, no symmetry reduction, \<open>pImax = pIbmax = 0\<close>: three basis indices, which
  differ in \<open>(pS, qS) = (0, -1), (0, 1), (1, 0)\<close>.
\<close>

definition basisopts_small :: "int \<Rightarrow> real" where
  "basisopts_small k = (if k = 4 \<or> k = 6 then 1 else 0)"

text \<open>Isotropic diffusion, exchange rate 2, no potential (\<open>maxL = -1\<close>).\<close>

definition diff_exchange :: DiffusionInput where
  "diff_exchange =
     \<lparr> in_Exchange = 2, in_xlk = (\<lambda>_. 0), in_maxL = - 1, in_Diff = (\<lambda>_. 1) \<rparr>"

text \<open>The call with these arguments and room for \<open>n\<close> elements.\<close>

definition args_exchange :: "real \<Rightarrow> mex_args" where
  "args_exchange n =
     \<lparr> prhs_Sys = sys_zero, basisopts = basisopts_small, prhs_Diff = diff_exchange,
       allocationOptions = (\<lambda>k. if k = 0 then n else 100) \<rparr>"

text \<open>The globals before the first call: static storage, all zero.\<close>

definition globals_zero :: globals where
  "globals_zero =
     \<lparr> Sys = sys_zero,
       Diff = \<lparr> xlk = (\<lambda>_. 0), Rxx = 0, Ryy = 0, Rzz = 0, Exchange = 0, maxL = 0 \<rparr>,
       Lemax = 0, Lomax = 0, Kmax = 0, Mmax = 0, jKmin = 0, pSmin = 0, pImax = 0, pIbmax = 0,
       deltaK = 0, MeirovitchSymm = 0, maxElements = 5000000, maxRows = 100000 \<rparr>"

text \<open>A 3-j symbol that is zero everywhere, for runs in which its value plays no role.\<close>

definition jjj_zero :: wigner3j where
  "jjj_zero = (\<lambda>_ _ _ _ _ _. 0)"

text \<open>The globals as the call above leaves them after parsing, with room for 100 elements.\<close>

definition globals_small :: globals where
  "globals_small = parse_args (args_exchange 100) globals_zero"

text \<open>The same basis and spins, with other interactions, diffusion rates and potential.\<close>

definition globals_other :: globals where
  "globals_other =
     globals_small
       \<lparr> Sys := (Sys globals_small)
           \<lparr> EZI0 := 3, HFI0 := 7, NZI0b := 1, ReEZI2 := (\<lambda>_. 1), ImHFI2 := Some (\<lambda>_. 4) \<rparr>,
         Diff := \<lparr> xlk = (\<lambda>_. 2), Rxx = 5, Ryy = 6, Rzz = 7, Exchange = 0, maxL = 2 \<rparr> \<rparr>"

section \<open>Collections of defining equations\<close>

declare PotDiff_loop.simps [simp del]

declare c_range.simps [simp del]

declare for_loop.simps [code]

lemmas makematrix_column_loops =
  makematrix_L2.simps makematrix_jK2.simps makematrix_K2.simps makematrix_M2.simps
  makematrix_pS2.simps makematrix_qS2.simps makematrix_pI2.simps makematrix_qI2.simps
  makematrix_pI2b.simps makematrix_qI2b.simps

declare makematrix_column_loops [simp del]

lemmas makematrix_row_loops =
  makematrix_L1_def makematrix_jK1_def makematrix_K1_def makematrix_M1_def
  makematrix_pS1_def makematrix_qS1_def makematrix_pI1_def makematrix_qI1_def
  makematrix_pI1b_def makematrix_qI1b_def

lemmas BasisSize_loops =
  BasisSize_L1_def BasisSize_jK1_def BasisSize_K1_def BasisSize_M1_def
  BasisSize_pS1_def BasisSize_qS1_def BasisSize_pI1_def BasisSize_qI1_def
  BasisSize_pI1b_def BasisSize_qI1b_def

section \<open>The stored entries\<close>

text \<open>The four cells of the output arrays at one offset.\<close>

definition cell :: "mm_state \<Rightarrow> int \<Rightarrow> real option \<times> real option \<times> real option \<times> real option" where
  "cell s k = (ridx s k, cidx s k, MatrixRe s k, MatrixIm s k)"

text \<open>
  The invariant of the element arrays: every offset below \<^verbatim>\<open>iElement\<close> holds an entry;
  an entry off the diagonal has its mirror image among the entries; a diagonal entry
  belongs to a row below \<open>b\<close> and is the only entry of its row and column.
\<close>

definition entries_inv :: "int \<Rightarrow> mm_state \<Rightarrow> bool" where
  "entries_inv b s \<longleftrightarrow>
     0 \<le> iElement s \<and>
     (\<forall>k. 0 \<le> k \<and> k < iElement s \<longrightarrow>
        (\<exists>row col re im.
           cell s k = (Some (of_int row), Some (of_int col), Some re, Some im) \<and>
           (row \<noteq> col \<longrightarrow>
              (\<exists>k'. 0 \<le> k' \<and> k' < iElement s \<and>
                 cell s k' = (Some (of_int col), Some (of_int row), Some re, Some im))) \<and>
           (row = col \<longrightarrow>
              row < b \<and>
              (\<forall>k' re' im'. 0 \<le> k' \<and> k' < iElement s \<and>
                 cell s k' = (Some (of_int row), Some (of_int row), Some re', Some im')
                 \<longrightarrow> k' = k))))"

text \<open>While the column loops of a row run, and between two rows.\<close>

definition in_row_inv :: "mm_state \<Rightarrow> bool" where
  "in_row_inv s \<longleftrightarrow>
     entries_inv (if diagRC s then iRow s else iRow s + 1) s \<and>
     (if diagRC s then iCol s = iRow s else iRow s < iCol s)"

definition between_rows_inv :: "mm_state \<Rightarrow> bool" where
  "between_rows_inv s \<longleftrightarrow> entries_inv (iRow s) s"

text \<open>The state in which a computation ends, whether it returns or aborts.\<close>

fun state_of :: "'s res \<Rightarrow> 's" where
  "state_of (Done s) = s"
| "state_of (Fatal m s) = s"


section \<open>The basis enumerator of the specification\<close>

text \<open>
  Section 4.1 of the specification describes the sequence of basis indices: \<open>L\<close> outermost,
  then \<open>jK\<close>, \<open>K\<close>, \<open>M\<close>, \<open>pS\<close>, \<open>qS\<close>, \<open>pI\<close>, \<open>qI\<close>, \<open>pIb\<close>, \<open>qIb\<close>, each with its
  range and filter. The definitions below follow that description, innermost variable first;
  each gives the list of the remaining components of the index. The argument \<open>start\<close> is
  \<open>None\<close> for the enumeration from the beginning and \<open>Some r\<close> for the enumeration that
  resumes at the basis index \<open>r\<close>: a variable then starts at its value in \<open>r\<close>, and the
  variables inside it resume at \<open>r\<close> only in that first round.
\<close>

definition qn_L :: "qn \<Rightarrow> int" where "qn_L = (\<lambda>(L, jK, K, M, pS, qS, pI, qI, pIb, qIb). L)"
definition qn_jK :: "qn \<Rightarrow> int" where "qn_jK = (\<lambda>(L, jK, K, M, pS, qS, pI, qI, pIb, qIb). jK)"
definition qn_K :: "qn \<Rightarrow> int" where "qn_K = (\<lambda>(L, jK, K, M, pS, qS, pI, qI, pIb, qIb). K)"
definition qn_M :: "qn \<Rightarrow> int" where "qn_M = (\<lambda>(L, jK, K, M, pS, qS, pI, qI, pIb, qIb). M)"
definition qn_pS :: "qn \<Rightarrow> int" where "qn_pS = (\<lambda>(L, jK, K, M, pS, qS, pI, qI, pIb, qIb). pS)"
definition qn_qS :: "qn \<Rightarrow> int" where "qn_qS = (\<lambda>(L, jK, K, M, pS, qS, pI, qI, pIb, qIb). qS)"
definition qn_pI :: "qn \<Rightarrow> int" where "qn_pI = (\<lambda>(L, jK, K, M, pS, qS, pI, qI, pIb, qIb). pI)"
definition qn_qI :: "qn \<Rightarrow> int" where "qn_qI = (\<lambda>(L, jK, K, M, pS, qS, pI, qI, pIb, qIb). qI)"
definition qn_pIb :: "qn \<Rightarrow> int" where "qn_pIb = (\<lambda>(L, jK, K, M, pS, qS, pI, qI, pIb, qIb). pIb)"
definition qn_qIb :: "qn \<Rightarrow> int" where "qn_qIb = (\<lambda>(L, jK, K, M, pS, qS, pI, qI, pIb, qIb). qIb)"

definition start_at :: "qn option \<Rightarrow> (qn \<Rightarrow> int) \<Rightarrow> int \<Rightarrow> int" where
  "start_at start sel lo = (case start of Some r \<Rightarrow> sel r | None \<Rightarrow> lo)"

definition resume :: "qn option \<Rightarrow> (qn \<Rightarrow> int) \<Rightarrow> int \<Rightarrow> qn option" where
  "resume start sel x = (case start of Some r \<Rightarrow> if x = sel r then Some r else None | None \<Rightarrow> None)"

definition enum_qIb :: "qn option \<Rightarrow> globals \<Rightarrow> int \<Rightarrow> int list" where
  "enum_qIb start g pIb =
     (let qmax = c_int (2 * Ib (Sys g)) - \<bar>pIb\<bar>
      in c_range (start_at start qn_qIb (- qmax)) qmax 2)"

definition enum_pIb :: "qn option \<Rightarrow> globals \<Rightarrow> int \<Rightarrow> int \<Rightarrow> int \<Rightarrow> (int \<times> int) list" where
  "enum_pIb start g M pS pI =
     nest (c_range (start_at start qn_pIb (- pIbmax g)) (pIbmax g) 1)
       (\<lambda>pIb. if MeirovitchSymm g \<noteq> 0 \<and> DirTilt (Sys g) = 0 \<and> pI + pIb + pS - M \<noteq> 1 then []
              else enum_qIb (resume start qn_pIb pIb) g pIb)"

definition enum_qI ::
  "qn option \<Rightarrow> globals \<Rightarrow> int \<Rightarrow> int \<Rightarrow> int \<Rightarrow> (int \<times> int \<times> int) list" where
  "enum_qI start g M pS pI =
     (let qmax = c_int (2 * I (Sys g)) - \<bar>pI\<bar>
      in nest (c_range (start_at start qn_qI (- qmax)) qmax 2)
           (\<lambda>qI. enum_pIb (resume start qn_qI qI) g M pS pI))"

definition enum_pI ::
  "qn option \<Rightarrow> globals \<Rightarrow> int \<Rightarrow> int \<Rightarrow> (int \<times> int \<times> int \<times> int) list" where
  "enum_pI start g M pS =
     nest (c_range (start_at start qn_pI (- pImax g)) (pImax g) 1)
       (\<lambda>pI. enum_qI (resume start qn_pI pI) g M pS pI)"

definition enum_qS ::
  "qn option \<Rightarrow> globals \<Rightarrow> int \<Rightarrow> int \<Rightarrow> (int \<times> int \<times> int \<times> int \<times> int) list" where
  "enum_qS start g M pS =
     (let qmax = 1 - \<bar>pS\<bar>
      in nest (c_range (start_at start qn_qS (- qmax)) qmax 2)
           (\<lambda>qS. enum_pI (resume start qn_qS qS) g M pS))"

definition enum_pS ::
  "qn option \<Rightarrow> globals \<Rightarrow> int \<Rightarrow> (int \<times> int \<times> int \<times> int \<times> int \<times> int) list" where
  "enum_pS start g M =
     nest (c_range (start_at start qn_pS (pSmin g)) 1 1)
       (\<lambda>pS. enum_qS (resume start qn_pS pS) g M pS)"

definition enum_M ::
  "qn option \<Rightarrow> globals \<Rightarrow> int \<Rightarrow> (int \<times> int \<times> int \<times> int \<times> int \<times> int \<times> int) list" where
  "enum_M start g L =
     (let Mmax' = mini (Mmax g) L
      in nest (c_range (start_at start qn_M (- Mmax')) Mmax' 1)
           (\<lambda>M. enum_pS (resume start qn_M M) g M))"

definition enum_K ::
  "qn option \<Rightarrow> globals \<Rightarrow> int \<Rightarrow> int \<Rightarrow>
   (int \<times> int \<times> int \<times> int \<times> int \<times> int \<times> int \<times> int) list" where
  "enum_K start g L jK =
     nest (c_range (start_at start qn_K 0) (mini (Kmax g) L) (deltaK g))
       (\<lambda>K. if K = 0 \<and> parity L \<noteq> jK then [] else enum_M (resume start qn_K K) g L)"

definition enum_jK ::
  "qn option \<Rightarrow> globals \<Rightarrow> int \<Rightarrow>
   (int \<times> int \<times> int \<times> int \<times> int \<times> int \<times> int \<times> int \<times> int) list" where
  "enum_jK start g L =
     nest (c_range (start_at start qn_jK (jKmin g)) 1 2)
       (\<lambda>jK. enum_K (resume start qn_jK jK) g L jK)"

text \<open>The basis: all indices, \<open>L\<close> from 0 to \<open>Lemax\<close>, odd \<open>L\<close> above \<open>Lomax\<close> left out.\<close>

definition basis :: "globals \<Rightarrow> qn list" where
  "basis g =
     nest (c_range 0 (Lemax g) 1)
       (\<lambda>L. if isodd L \<noteq> 0 \<and> L > Lomax g then [] else enum_jK None g L)"

text \<open>
  The columns that are paired with the row \<open>r\<close>: the enumeration resumes at \<open>r\<close> and ends
  with the orbital rank \<open>L\<close> of \<open>r\<close> plus the band width 8.
\<close>

definition columns :: "globals \<Rightarrow> qn \<Rightarrow> qn list" where
  "columns g r =
     nest (c_range (qn_L r) (mini (Lemax g) (qn_L r + Lband)) 1)
       (\<lambda>L. if isodd L \<noteq> 0 \<and> L > Lomax g then [] else enum_jK (resume (Some r) qn_L L) g L)"

section \<open>More concrete inputs\<close>

text \<open>
  The scenario of section 8 of the specification: no nuclei, \<open>Lemax = 2\<close>, \<open>Lomax = 1\<close>,
  \<open>Kmax = Mmax = 0\<close>, \<open>jKmin = 1\<close>, \<open>pSmin = 0\<close>, \<open>deltaK = 2\<close>, no potential, no exchange,
  isotropic diffusion with rate 1.
\<close>

definition globals_scenario :: globals where
  "globals_scenario =
     \<lparr> Sys = sys_zero,
       Diff = \<lparr> xlk = (\<lambda>_. 0), Rxx = 1, Ryy = 1, Rzz = 1, Exchange = 0, maxL = - 1 \<rparr>,
       Lemax = 2, Lomax = 1, Kmax = 0, Mmax = 0, jKmin = 1, pSmin = 0, pImax = 0, pIbmax = 0,
       deltaK = 2, MeirovitchSymm = 0, maxElements = 100, maxRows = 7 \<rparr>"

text \<open>
  A basis that reaches \<open>K = 5\<close>: \<open>Lemax = Lomax = Kmax = 5\<close>, \<open>deltaK = 5\<close>, \<open>Mmax = 0\<close>,
  \<open>jKmin = pSmin = 1\<close>; isotropic diffusion with rate 1, and a potential (\<open>maxL = 0\<close>) whose
  coefficient is zero. Its four basis indices have \<open>(L, K) = (0, 0), (2, 0), (4, 0), (5, 5)\<close>.
\<close>

definition globals_band :: globals where
  "globals_band =
     \<lparr> Sys = sys_zero,
       Diff = \<lparr> xlk = (\<lambda>_. 0), Rxx = 1, Ryy = 1, Rzz = 1, Exchange = 0, maxL = 0 \<rparr>,
       Lemax = 5, Lomax = 5, Kmax = 5, Mmax = 0, jKmin = 1, pSmin = 1, pImax = 0, pIbmax = 0,
       deltaK = 5, MeirovitchSymm = 0, maxElements = 100, maxRows = 5 \<rparr>"

section \<open>Runs without rows, and runs within the row capacity\<close>

text \<open>
  The bounds under which the loop nests never reach a \<open>K\<close> loop with a non-empty range:
  no value of \<open>L\<close>, no value of \<open>jK\<close>, or no value of \<open>K\<close>.
\<close>

definition no_K_round :: "globals \<Rightarrow> bool" where
  "no_K_round g \<longleftrightarrow> Lemax g < 0 \<or> 1 < jKmin g \<or> Kmax g < 0"

text \<open>The message of the row-capacity check (lines 511 and 528).\<close>

abbreviation dimension_error :: string where
  "dimension_error \<equiv> ''Dimension too large. Increase Opt.Allocation(2).''"

text \<open>
  A result that is either a normal one with the given row and column counters, or an abort
  other than the row-capacity one.
\<close>

definition within_rows :: "int \<Rightarrow> int \<Rightarrow> mm_state res \<Rightarrow> bool" where
  "within_rows row col res =
     (case res of
        Done s \<Rightarrow> iRow s = row \<and> iCol s = col
      | Fatal m s \<Rightarrow> m \<noteq> dimension_error)"

lemmas eval_basis =
  BasisSize_def BasisSize_loops for_loop.simps Let_def isodd_def parity_def mini_def c_int_def
  signed_modulo_int_def

lemmas eval_element =
  GammaElement_def LiouvilleElement_def Liouville_terms_def
  IsoDiffKdiag_def IsoDiffKm2_def IsoDiffKp2_def RhombicDiff_def Potential_def ExchangePresent_def
  PotDiff_def N_K_def N_L_def NormFactor_def R_EZI2_def R_HFI2_def R_HFI2b_def R_rank2_def
  Liouville_EZI_def Liouville_HFI_def Lband_def Kband_def

lemmas eval_makematrix =
  makematrix_def makematrix_row_loops makematrix_column_loops row_body_def column_body_def
  store_element_def next_column_def write_element_def mm_init_def

lemmas eval_inputs =
  sys_zero_def basisopts_small_def diff_exchange_def args_exchange_def globals_zero_def
  globals_small_def globals_other_def parse_args_def mexFunction_def jjj_zero_def


lemmas eval_enum =
  basis_def columns_def enum_jK_def enum_K_def enum_M_def enum_pS_def enum_qS_def enum_pI_def
  enum_qI_def enum_pIb_def enum_qIb_def nest_def start_at_def resume_def c_range.simps
  qn_L_def qn_jK_def qn_K_def qn_M_def qn_pS_def qn_qS_def qn_pI_def qn_qI_def qn_pIb_def
  qn_qIb_def

lemmas eval_more = globals_scenario_def globals_band_def PotDiff_loop.simps

section \<open>General facts about loops\<close>

lemma for_loop_induct [consumes 1, case_names 1]:
  assumes run: "for_loop x hi step body s = Some r"
      and IH: "\<And>loop x hi step body s r.
          (\<And>x hi step body s r. loop x hi step body s = Some r \<Longrightarrow> P x hi step body s r) \<Longrightarrow>
          (if x \<le> hi then
             (case body x s of
                None \<Rightarrow> None
              | Some (Done s') \<Rightarrow> loop (x + step) hi step body s'
              | Some (Fatal m s') \<Rightarrow> Some (Fatal m s'))
           else Some (Done s)) = Some r \<Longrightarrow> P x hi step body s r"
  shows "P x hi step body s r"
  apply (rule for_loop.raw_induct [where P = P and xa = "((((x, hi), step), body), s)" and y = r,
          unfolded prod.case])
   apply (rule IH)
    apply assumption
   apply assumption
  apply (rule run)
  done

lemma for_loop_rule:
  assumes "for_loop x hi step body s = Some r"
      and "P s"
      and "\<And>x s s'. P s \<Longrightarrow> body x s = Some (Done s') \<Longrightarrow> P s'"
      and "\<And>x s m s'. P s \<Longrightarrow> body x s = Some (Fatal m s') \<Longrightarrow> Q m s'"
  shows "case r of Done s' \<Rightarrow> P s' | Fatal m s' \<Rightarrow> Q m s'"
  using assms
proof (induction x hi step body s r rule: for_loop_induct)
  case (1 loop x hi step body s r)
  show ?case
  proof (cases "x \<le> hi")
    case False
    with "1.hyps" "1.prems"(1) show ?thesis by auto
  next
    case True
    show ?thesis
    proof (cases "body x s")
      case None
      with True "1.hyps" show ?thesis by simp
    next
      case (Some b)
      show ?thesis
      proof (cases b)
        case (Fatal m s')
        with Some True "1.hyps" "1.prems" show ?thesis by auto
      next
        case (Done s')
        with Some True "1.hyps" have run: "loop (x + step) hi step body s' = Some r" by simp
        have "P s'" using "1.prems"(2) "1.prems"(1) Some Done by blast
        show ?thesis
        proof (rule "1.IH" [OF run \<open>P s'\<close>])
          show "\<And>x s s'. P s \<Longrightarrow> body x s = Some (Done s') \<Longrightarrow> P s'"
            by (rule "1.prems"(2))
          show "\<And>x s m s'. P s \<Longrightarrow> body x s = Some (Fatal m s') \<Longrightarrow> Q m s'"
            by (rule "1.prems"(3))
        qed
      qed
    qed
  qed
qed

lemma for_loop_nonpos:
  assumes "for_loop x hi step body s = Some r" and "step \<le> 0" and "x \<le> hi"
  shows "\<exists>m s'. r = Fatal m s'"
  using assms
proof (induction x hi step body s r rule: for_loop_induct)
  case (1 loop x hi step body s r)
  show ?case
  proof (cases "body x s")
    case None
    with 1 show ?thesis by simp
  next
    case (Some b)
    show ?thesis
    proof (cases b)
      case (Fatal m s')
      with Some 1 show ?thesis by auto
    next
      case (Done s')
      with Some "1.hyps" "1.prems" have run: "loop (x + step) hi step body s' = Some r" by simp
      from "1.prems" have "x + step \<le> hi" by simp
      from "1.IH"[OF run "1.prems"(1) this] show ?thesis .
    qed
  qed
qed

lemma for_loop_empty: "hi < x \<Longrightarrow> for_loop x hi step body s = Some (Done s)"
  by (subst for_loop.simps) simp

lemma for_loop_pos:
  "0 < step \<Longrightarrow> for_loop x hi step body s = for_list body (c_range x hi step) s"
proof (induction x hi step arbitrary: s rule: c_range.induct)
  case (1 x hi step)
  show ?case
  proof (cases "x \<le> hi")
    case False
    then show ?thesis by (simp add: for_loop_empty c_range.simps)
  next
    case True
    with 1 show ?thesis
      by (subst for_loop.simps, subst c_range.simps)
         (simp split: option.splits res.splits)
  qed
qed

lemma for_list_append:
  "for_list body (xs @ ys) s =
     (case for_list body xs s of
        None \<Rightarrow> None
      | Some (Fatal m s') \<Rightarrow> Some (Fatal m s')
      | Some (Done s') \<Rightarrow> for_list body ys s')"
  by (induction xs arbitrary: s) (simp_all split: option.splits res.splits)

lemma for_list_map: "for_list body (map f xs) s = for_list (\<lambda>x. body (f x)) xs s"
  by (induction xs arbitrary: s) (simp_all split: option.splits res.splits)

lemma for_list_nest:
  "for_list (\<lambda>x. for_list (h x) (inner x)) xs s = for_list (\<lambda>(x, y). h x y) (nest xs inner) s"
proof (induction xs arbitrary: s)
  case Nil
  show ?case by (simp add: nest_def)
next
  case (Cons x xs)
  have "nest (x # xs) inner = map (Pair x) (inner x) @ nest xs inner"
    by (simp add: nest_def)
  then show ?case
    using Cons by (simp add: for_list_append for_list_map split: option.splits res.splits)
qed

lemma for_list_cong:
  assumes "\<And>x s. x \<in> set xs \<Longrightarrow> J s \<Longrightarrow> f x s = g x s"
      and "\<And>x s s'. x \<in> set xs \<Longrightarrow> J s \<Longrightarrow> g x s = Some (Done s') \<Longrightarrow> J s'"
      and "J s"
  shows "for_list f xs s = for_list g xs s"
  using assms
proof (induction xs arbitrary: s)
  case Nil
  show ?case by simp
next
  case (Cons x xs)
  have fx: "f x s = g x s" using Cons.prems by simp
  show ?case
  proof (cases "g x s")
    case None
    with fx show ?thesis by simp
  next
    case (Some b)
    show ?thesis
    proof (cases b)
      case (Fatal m s')
      with Some fx show ?thesis by simp
    next
      case (Done s')
      have "J s'" using Cons.prems(2)[of x s s'] Cons.prems(3) Some Done by simp
      have "for_list f xs s' = for_list g xs s'"
      proof (rule Cons.IH)
        show "\<And>x s. x \<in> set xs \<Longrightarrow> J s \<Longrightarrow> f x s = g x s"
          using Cons.prems(1) by simp
        show "\<And>x s s'. x \<in> set xs \<Longrightarrow> J s \<Longrightarrow> g x s = Some (Done s') \<Longrightarrow> J s'"
          using Cons.prems(2) by (meson list.set_intros(2))
        show "J s'" by fact
      qed
      with Some Done fx show ?thesis by simp
    qed
  qed
qed

lemma for_list_rule:
  assumes "for_list body xs s = Some r"
      and "P s"
      and "\<And>x s s'. x \<in> set xs \<Longrightarrow> P s \<Longrightarrow> body x s = Some (Done s') \<Longrightarrow> P s'"
      and "\<And>x s m s'. x \<in> set xs \<Longrightarrow> P s \<Longrightarrow> body x s = Some (Fatal m s') \<Longrightarrow> Q m s'"
  shows "case r of Done s' \<Rightarrow> P s' | Fatal m s' \<Rightarrow> Q m s'"
  using assms
proof (induction xs arbitrary: s)
  case Nil
  then show ?case by auto
next
  case (Cons x xs)
  show ?case
  proof (cases "body x s")
    case None
    with Cons.prems show ?thesis by simp
  next
    case (Some b)
    show ?thesis
    proof (cases b)
      case (Fatal m s')
      with Some Cons.prems(1) have "r = Fatal m s'" by simp
      moreover have "Q m s'" using Cons.prems(4)[of x s m s'] Cons.prems(2) Some Fatal by simp
      ultimately show ?thesis by simp
    next
      case (Done s')
      with Some Cons.prems(1) have run: "for_list body xs s' = Some r" by simp
      have "P s'" using Cons.prems(3)[of x s s'] Cons.prems(2) Some Done by simp
      show ?thesis
      proof (rule Cons.IH [OF run \<open>P s'\<close>])
        show "\<And>x s s'. x \<in> set xs \<Longrightarrow> P s \<Longrightarrow> body x s = Some (Done s') \<Longrightarrow> P s'"
          using Cons.prems(3) by (meson list.set_intros(2))
        show "\<And>x s m s'. x \<in> set xs \<Longrightarrow> P s \<Longrightarrow> body x s = Some (Fatal m s') \<Longrightarrow> Q m s'"
          using Cons.prems(4) by (meson list.set_intros(2))
      qed
    qed
  qed
qed

section \<open>Invariants of the loop nests of makematrix\<close>

text \<open>
  A property that the innermost body keeps is kept by every loop around it. There is one
  rule for each of the ten column loops and for each of the ten row loops.
\<close>

lemma makematrix_qI2b_rule:
  assumes run: "makematrix_qI2b jjj g r L2 jK2 K2 M2 pS2 qS2 pI2 qI2 pI2b s = Some res"
      and init: "P s"
      and step: "\<And>c s s'. P s \<Longrightarrow> column_body jjj g r c s = Some (Done s') \<Longrightarrow> P s'"
      and fatal: "\<And>c s m s'. P s \<Longrightarrow> column_body jjj g r c s = Some (Fatal m s') \<Longrightarrow> Q m s'"
  shows "case res of Done s' \<Rightarrow> P s' | Fatal m s' \<Rightarrow> Q m s'"
proof -
  obtain L1 jK1 K1 M1 pS1 qS1 pI1 qI1 pI1b qI1b
    where r: "r = (L1, jK1, K1, M1, pS1, qS1, pI1, qI1, pI1b, qI1b)"
    by (cases r) auto
  show ?thesis
    using run unfolding r makematrix_qI2b.simps Let_def
    apply (rule for_loop_rule [where P = P and Q = Q])
      apply (rule init)
     apply (auto dest: step [unfolded r] fatal [unfolded r])
    done
qed

lemma makematrix_pI2b_rule:
  assumes run: "makematrix_pI2b jjj g r L2 jK2 K2 M2 pS2 qS2 pI2 qI2 s = Some res"
      and init: "P s"
      and step: "\<And>c s s'. P s \<Longrightarrow> column_body jjj g r c s = Some (Done s') \<Longrightarrow> P s'"
      and fatal: "\<And>c s m s'. P s \<Longrightarrow> column_body jjj g r c s = Some (Fatal m s') \<Longrightarrow> Q m s'"
  shows "case res of Done s' \<Rightarrow> P s' | Fatal m s' \<Rightarrow> Q m s'"
proof -
  obtain L1 jK1 K1 M1 pS1 qS1 pI1 qI1 pI1b qI1b
    where r: "r = (L1, jK1, K1, M1, pS1, qS1, pI1, qI1, pI1b, qI1b)"
    by (cases r) auto
  show ?thesis
    using run unfolding r makematrix_pI2b.simps Let_def
    apply (rule for_loop_rule [where P = P and Q = Q])
      apply (rule init)
     apply (auto split: if_splits
         dest: makematrix_qI2b_rule [where P = P and Q = Q, OF _ _ step [unfolded r] fatal [unfolded r]])
    done
qed

lemma makematrix_qI2_rule:
  assumes run: "makematrix_qI2 jjj g r L2 jK2 K2 M2 pS2 qS2 pI2 s = Some res"
      and init: "P s"
      and step: "\<And>c s s'. P s \<Longrightarrow> column_body jjj g r c s = Some (Done s') \<Longrightarrow> P s'"
      and fatal: "\<And>c s m s'. P s \<Longrightarrow> column_body jjj g r c s = Some (Fatal m s') \<Longrightarrow> Q m s'"
  shows "case res of Done s' \<Rightarrow> P s' | Fatal m s' \<Rightarrow> Q m s'"
proof -
  obtain L1 jK1 K1 M1 pS1 qS1 pI1 qI1 pI1b qI1b
    where r: "r = (L1, jK1, K1, M1, pS1, qS1, pI1, qI1, pI1b, qI1b)"
    by (cases r) auto
  show ?thesis
    using run unfolding r makematrix_qI2.simps Let_def
    apply (rule for_loop_rule [where P = P and Q = Q])
      apply (rule init)
     apply (auto split: if_splits
         dest: makematrix_pI2b_rule [where P = P and Q = Q, OF _ _ step [unfolded r] fatal [unfolded r]])
    done
qed

lemma makematrix_pI2_rule:
  assumes run: "makematrix_pI2 jjj g r L2 jK2 K2 M2 pS2 qS2 s = Some res"
      and init: "P s"
      and step: "\<And>c s s'. P s \<Longrightarrow> column_body jjj g r c s = Some (Done s') \<Longrightarrow> P s'"
      and fatal: "\<And>c s m s'. P s \<Longrightarrow> column_body jjj g r c s = Some (Fatal m s') \<Longrightarrow> Q m s'"
  shows "case res of Done s' \<Rightarrow> P s' | Fatal m s' \<Rightarrow> Q m s'"
proof -
  obtain L1 jK1 K1 M1 pS1 qS1 pI1 qI1 pI1b qI1b
    where r: "r = (L1, jK1, K1, M1, pS1, qS1, pI1, qI1, pI1b, qI1b)"
    by (cases r) auto
  show ?thesis
    using run unfolding r makematrix_pI2.simps Let_def
    apply (rule for_loop_rule [where P = P and Q = Q])
      apply (rule init)
     apply (auto split: if_splits
         dest: makematrix_qI2_rule [where P = P and Q = Q, OF _ _ step [unfolded r] fatal [unfolded r]])
    done
qed

lemma makematrix_qS2_rule:
  assumes run: "makematrix_qS2 jjj g r L2 jK2 K2 M2 pS2 s = Some res"
      and init: "P s"
      and step: "\<And>c s s'. P s \<Longrightarrow> column_body jjj g r c s = Some (Done s') \<Longrightarrow> P s'"
      and fatal: "\<And>c s m s'. P s \<Longrightarrow> column_body jjj g r c s = Some (Fatal m s') \<Longrightarrow> Q m s'"
  shows "case res of Done s' \<Rightarrow> P s' | Fatal m s' \<Rightarrow> Q m s'"
proof -
  obtain L1 jK1 K1 M1 pS1 qS1 pI1 qI1 pI1b qI1b
    where r: "r = (L1, jK1, K1, M1, pS1, qS1, pI1, qI1, pI1b, qI1b)"
    by (cases r) auto
  show ?thesis
    using run unfolding r makematrix_qS2.simps Let_def
    apply (rule for_loop_rule [where P = P and Q = Q])
      apply (rule init)
     apply (auto split: if_splits
         dest: makematrix_pI2_rule [where P = P and Q = Q, OF _ _ step [unfolded r] fatal [unfolded r]])
    done
qed

lemma makematrix_pS2_rule:
  assumes run: "makematrix_pS2 jjj g r L2 jK2 K2 M2 s = Some res"
      and init: "P s"
      and step: "\<And>c s s'. P s \<Longrightarrow> column_body jjj g r c s = Some (Done s') \<Longrightarrow> P s'"
      and fatal: "\<And>c s m s'. P s \<Longrightarrow> column_body jjj g r c s = Some (Fatal m s') \<Longrightarrow> Q m s'"
  shows "case res of Done s' \<Rightarrow> P s' | Fatal m s' \<Rightarrow> Q m s'"
proof -
  obtain L1 jK1 K1 M1 pS1 qS1 pI1 qI1 pI1b qI1b
    where r: "r = (L1, jK1, K1, M1, pS1, qS1, pI1, qI1, pI1b, qI1b)"
    by (cases r) auto
  show ?thesis
    using run unfolding r makematrix_pS2.simps Let_def
    apply (rule for_loop_rule [where P = P and Q = Q])
      apply (rule init)
     apply (auto split: if_splits
         dest: makematrix_qS2_rule [where P = P and Q = Q, OF _ _ step [unfolded r] fatal [unfolded r]])
    done
qed

lemma makematrix_M2_rule:
  assumes run: "makematrix_M2 jjj g r L2 jK2 K2 s = Some res"
      and init: "P s"
      and step: "\<And>c s s'. P s \<Longrightarrow> column_body jjj g r c s = Some (Done s') \<Longrightarrow> P s'"
      and fatal: "\<And>c s m s'. P s \<Longrightarrow> column_body jjj g r c s = Some (Fatal m s') \<Longrightarrow> Q m s'"
  shows "case res of Done s' \<Rightarrow> P s' | Fatal m s' \<Rightarrow> Q m s'"
proof -
  obtain L1 jK1 K1 M1 pS1 qS1 pI1 qI1 pI1b qI1b
    where r: "r = (L1, jK1, K1, M1, pS1, qS1, pI1, qI1, pI1b, qI1b)"
    by (cases r) auto
  show ?thesis
    using run unfolding r makematrix_M2.simps Let_def
    apply (rule for_loop_rule [where P = P and Q = Q])
      apply (rule init)
     apply (auto split: if_splits
         dest: makematrix_pS2_rule [where P = P and Q = Q, OF _ _ step [unfolded r] fatal [unfolded r]])
    done
qed

lemma makematrix_K2_rule:
  assumes run: "makematrix_K2 jjj g r L2 jK2 s = Some res"
      and init: "P s"
      and step: "\<And>c s s'. P s \<Longrightarrow> column_body jjj g r c s = Some (Done s') \<Longrightarrow> P s'"
      and fatal: "\<And>c s m s'. P s \<Longrightarrow> column_body jjj g r c s = Some (Fatal m s') \<Longrightarrow> Q m s'"
  shows "case res of Done s' \<Rightarrow> P s' | Fatal m s' \<Rightarrow> Q m s'"
proof -
  obtain L1 jK1 K1 M1 pS1 qS1 pI1 qI1 pI1b qI1b
    where r: "r = (L1, jK1, K1, M1, pS1, qS1, pI1, qI1, pI1b, qI1b)"
    by (cases r) auto
  show ?thesis
    using run unfolding r makematrix_K2.simps Let_def
    apply (rule for_loop_rule [where P = P and Q = Q])
      apply (rule init)
     apply (auto split: if_splits
         dest: makematrix_M2_rule [where P = P and Q = Q, OF _ _ step [unfolded r] fatal [unfolded r]])
    done
qed

lemma makematrix_jK2_rule:
  assumes run: "makematrix_jK2 jjj g r L2 s = Some res"
      and init: "P s"
      and step: "\<And>c s s'. P s \<Longrightarrow> column_body jjj g r c s = Some (Done s') \<Longrightarrow> P s'"
      and fatal: "\<And>c s m s'. P s \<Longrightarrow> column_body jjj g r c s = Some (Fatal m s') \<Longrightarrow> Q m s'"
  shows "case res of Done s' \<Rightarrow> P s' | Fatal m s' \<Rightarrow> Q m s'"
proof -
  obtain L1 jK1 K1 M1 pS1 qS1 pI1 qI1 pI1b qI1b
    where r: "r = (L1, jK1, K1, M1, pS1, qS1, pI1, qI1, pI1b, qI1b)"
    by (cases r) auto
  show ?thesis
    using run unfolding r makematrix_jK2.simps Let_def
    apply (rule for_loop_rule [where P = P and Q = Q])
      apply (rule init)
     apply (auto split: if_splits
         dest: makematrix_K2_rule [where P = P and Q = Q, OF _ _ step [unfolded r] fatal [unfolded r]])
    done
qed

lemma makematrix_L2_rule:
  assumes run: "makematrix_L2 jjj g r  s = Some res"
      and init: "P s"
      and step: "\<And>c s s'. P s \<Longrightarrow> column_body jjj g r c s = Some (Done s') \<Longrightarrow> P s'"
      and fatal: "\<And>c s m s'. P s \<Longrightarrow> column_body jjj g r c s = Some (Fatal m s') \<Longrightarrow> Q m s'"
  shows "case res of Done s' \<Rightarrow> P s' | Fatal m s' \<Rightarrow> Q m s'"
proof -
  obtain L1 jK1 K1 M1 pS1 qS1 pI1 qI1 pI1b qI1b
    where r: "r = (L1, jK1, K1, M1, pS1, qS1, pI1, qI1, pI1b, qI1b)"
    by (cases r) auto
  show ?thesis
    using run unfolding r makematrix_L2.simps Let_def
    apply (rule for_loop_rule [where P = P and Q = Q])
      apply (rule init)
     apply (auto split: if_splits
         dest: makematrix_jK2_rule [where P = P and Q = Q, OF _ _ step [unfolded r] fatal [unfolded r]])
    done
qed

lemma makematrix_qI1b_rule:
  assumes run: "makematrix_qI1b jjj g L1 jK1 K1 M1 pS1 qS1 pI1 qI1 pI1b s = Some res"
      and init: "P s"
      and step: "\<And>r s s'. P s \<Longrightarrow> row_body jjj g r s = Some (Done s') \<Longrightarrow> P s'"
      and fatal: "\<And>r s m s'. P s \<Longrightarrow> row_body jjj g r s = Some (Fatal m s') \<Longrightarrow> Q m s'"
  shows "case res of Done s' \<Rightarrow> P s' | Fatal m s' \<Rightarrow> Q m s'"
  using run unfolding makematrix_qI1b_def Let_def
  apply (rule for_loop_rule [where P = P and Q = Q])
    apply (rule init)
   apply (auto dest: step fatal)
  done

lemma makematrix_pI1b_rule:
  assumes run: "makematrix_pI1b jjj g L1 jK1 K1 M1 pS1 qS1 pI1 qI1 s = Some res"
      and init: "P s"
      and step: "\<And>r s s'. P s \<Longrightarrow> row_body jjj g r s = Some (Done s') \<Longrightarrow> P s'"
      and fatal: "\<And>r s m s'. P s \<Longrightarrow> row_body jjj g r s = Some (Fatal m s') \<Longrightarrow> Q m s'"
  shows "case res of Done s' \<Rightarrow> P s' | Fatal m s' \<Rightarrow> Q m s'"
  using run unfolding makematrix_pI1b_def Let_def
  apply (rule for_loop_rule [where P = P and Q = Q])
    apply (rule init)
   apply (auto split: if_splits
       dest: makematrix_qI1b_rule [where P = P and Q = Q, OF _ _ step fatal])
  done

lemma makematrix_qI1_rule:
  assumes run: "makematrix_qI1 jjj g L1 jK1 K1 M1 pS1 qS1 pI1 s = Some res"
      and init: "P s"
      and step: "\<And>r s s'. P s \<Longrightarrow> row_body jjj g r s = Some (Done s') \<Longrightarrow> P s'"
      and fatal: "\<And>r s m s'. P s \<Longrightarrow> row_body jjj g r s = Some (Fatal m s') \<Longrightarrow> Q m s'"
  shows "case res of Done s' \<Rightarrow> P s' | Fatal m s' \<Rightarrow> Q m s'"
  using run unfolding makematrix_qI1_def Let_def
  apply (rule for_loop_rule [where P = P and Q = Q])
    apply (rule init)
   apply (auto split: if_splits
       dest: makematrix_pI1b_rule [where P = P and Q = Q, OF _ _ step fatal])
  done

lemma makematrix_pI1_rule:
  assumes run: "makematrix_pI1 jjj g L1 jK1 K1 M1 pS1 qS1 s = Some res"
      and init: "P s"
      and step: "\<And>r s s'. P s \<Longrightarrow> row_body jjj g r s = Some (Done s') \<Longrightarrow> P s'"
      and fatal: "\<And>r s m s'. P s \<Longrightarrow> row_body jjj g r s = Some (Fatal m s') \<Longrightarrow> Q m s'"
  shows "case res of Done s' \<Rightarrow> P s' | Fatal m s' \<Rightarrow> Q m s'"
  using run unfolding makematrix_pI1_def Let_def
  apply (rule for_loop_rule [where P = P and Q = Q])
    apply (rule init)
   apply (auto split: if_splits
       dest: makematrix_qI1_rule [where P = P and Q = Q, OF _ _ step fatal])
  done

lemma makematrix_qS1_rule:
  assumes run: "makematrix_qS1 jjj g L1 jK1 K1 M1 pS1 s = Some res"
      and init: "P s"
      and step: "\<And>r s s'. P s \<Longrightarrow> row_body jjj g r s = Some (Done s') \<Longrightarrow> P s'"
      and fatal: "\<And>r s m s'. P s \<Longrightarrow> row_body jjj g r s = Some (Fatal m s') \<Longrightarrow> Q m s'"
  shows "case res of Done s' \<Rightarrow> P s' | Fatal m s' \<Rightarrow> Q m s'"
  using run unfolding makematrix_qS1_def Let_def
  apply (rule for_loop_rule [where P = P and Q = Q])
    apply (rule init)
   apply (auto split: if_splits
       dest: makematrix_pI1_rule [where P = P and Q = Q, OF _ _ step fatal])
  done

lemma makematrix_pS1_rule:
  assumes run: "makematrix_pS1 jjj g L1 jK1 K1 M1 s = Some res"
      and init: "P s"
      and step: "\<And>r s s'. P s \<Longrightarrow> row_body jjj g r s = Some (Done s') \<Longrightarrow> P s'"
      and fatal: "\<And>r s m s'. P s \<Longrightarrow> row_body jjj g r s = Some (Fatal m s') \<Longrightarrow> Q m s'"
  shows "case res of Done s' \<Rightarrow> P s' | Fatal m s' \<Rightarrow> Q m s'"
  using run unfolding makematrix_pS1_def Let_def
  apply (rule for_loop_rule [where P = P and Q = Q])
    apply (rule init)
   apply (auto split: if_splits
       dest: makematrix_qS1_rule [where P = P and Q = Q, OF _ _ step fatal])
  done

lemma makematrix_M1_rule:
  assumes run: "makematrix_M1 jjj g L1 jK1 K1 s = Some res"
      and init: "P s"
      and step: "\<And>r s s'. P s \<Longrightarrow> row_body jjj g r s = Some (Done s') \<Longrightarrow> P s'"
      and fatal: "\<And>r s m s'. P s \<Longrightarrow> row_body jjj g r s = Some (Fatal m s') \<Longrightarrow> Q m s'"
  shows "case res of Done s' \<Rightarrow> P s' | Fatal m s' \<Rightarrow> Q m s'"
  using run unfolding makematrix_M1_def Let_def
  apply (rule for_loop_rule [where P = P and Q = Q])
    apply (rule init)
   apply (auto split: if_splits
       dest: makematrix_pS1_rule [where P = P and Q = Q, OF _ _ step fatal])
  done

lemma makematrix_K1_rule:
  assumes run: "makematrix_K1 jjj g L1 jK1 s = Some res"
      and init: "P s"
      and step: "\<And>r s s'. P s \<Longrightarrow> row_body jjj g r s = Some (Done s') \<Longrightarrow> P s'"
      and fatal: "\<And>r s m s'. P s \<Longrightarrow> row_body jjj g r s = Some (Fatal m s') \<Longrightarrow> Q m s'"
  shows "case res of Done s' \<Rightarrow> P s' | Fatal m s' \<Rightarrow> Q m s'"
  using run unfolding makematrix_K1_def Let_def
  apply (rule for_loop_rule [where P = P and Q = Q])
    apply (rule init)
   apply (auto split: if_splits
       dest: makematrix_M1_rule [where P = P and Q = Q, OF _ _ step fatal])
  done

lemma makematrix_jK1_rule:
  assumes run: "makematrix_jK1 jjj g L1 s = Some res"
      and init: "P s"
      and step: "\<And>r s s'. P s \<Longrightarrow> row_body jjj g r s = Some (Done s') \<Longrightarrow> P s'"
      and fatal: "\<And>r s m s'. P s \<Longrightarrow> row_body jjj g r s = Some (Fatal m s') \<Longrightarrow> Q m s'"
  shows "case res of Done s' \<Rightarrow> P s' | Fatal m s' \<Rightarrow> Q m s'"
  using run unfolding makematrix_jK1_def Let_def
  apply (rule for_loop_rule [where P = P and Q = Q])
    apply (rule init)
   apply (auto split: if_splits
       dest: makematrix_K1_rule [where P = P and Q = Q, OF _ _ step fatal])
  done

lemma makematrix_L1_rule:
  assumes run: "makematrix_L1 jjj g  s = Some res"
      and init: "P s"
      and step: "\<And>r s s'. P s \<Longrightarrow> row_body jjj g r s = Some (Done s') \<Longrightarrow> P s'"
      and fatal: "\<And>r s m s'. P s \<Longrightarrow> row_body jjj g r s = Some (Fatal m s') \<Longrightarrow> Q m s'"
  shows "case res of Done s' \<Rightarrow> P s' | Fatal m s' \<Rightarrow> Q m s'"
  using run unfolding makematrix_L1_def Let_def
  apply (rule for_loop_rule [where P = P and Q = Q])
    apply (rule init)
   apply (auto split: if_splits
       dest: makematrix_jK1_rule [where P = P and Q = Q, OF _ _ step fatal])
  done

section \<open>Mirror images and diagonal entries\<close>

lemma cell_write_element:
  "cell (write_element row col re im s) k =
     (if k = iElement s then (Some (of_int row), Some (of_int col), Some re, Some im)
      else cell s k)"
  by (simp add: cell_def write_element_def)

lemma iElement_write_element [simp]:
  "iElement (write_element row col re im s) = iElement s + 1"
  by (simp add: write_element_def)

lemma entries_inv_mono: "entries_inv b s \<Longrightarrow> b \<le> b' \<Longrightarrow> entries_inv b' s"
  unfolding entries_inv_def by (elim conjE, intro conjI allI impI, assumption) fastforce

lemma entries_inv_frame:
  "cell s' = cell s \<Longrightarrow> iElement s' = iElement s \<Longrightarrow> entries_inv b s \<Longrightarrow> entries_inv b s'"
  by (simp add: entries_inv_def)

lemma entries_inv_diag:
  assumes inv: "entries_inv b s" and b: "b \<le> row"
  shows "entries_inv (row + 1) (write_element row row re im s)"
  unfolding entries_inv_def
proof (intro conjI allI impI)
  show "0 \<le> iElement (write_element row row re im s)"
    using inv by (simp add: entries_inv_def)
next
  fix k
  assume k: "0 \<le> k \<and> k < iElement (write_element row row re im s)"
  let ?s' = "write_element row row re im s"
  show "\<exists>row' col re' im'.
           cell ?s' k = (Some (of_int row'), Some (of_int col), Some re', Some im') \<and>
           (row' \<noteq> col \<longrightarrow>
              (\<exists>k'. 0 \<le> k' \<and> k' < iElement ?s' \<and>
                 cell ?s' k' = (Some (of_int col), Some (of_int row'), Some re', Some im'))) \<and>
           (row' = col \<longrightarrow>
              row' < row + 1 \<and>
              (\<forall>k' re'' im''. 0 \<le> k' \<and> k' < iElement ?s' \<and>
                 cell ?s' k' = (Some (of_int row'), Some (of_int row'), Some re'', Some im'')
                 \<longrightarrow> k' = k))"
  proof (cases "k = iElement s")
    case True
    have old: "\<And>k' re'' im''. 0 \<le> k' \<Longrightarrow> k' \<le> iElement s \<Longrightarrow> k' \<noteq> iElement s \<Longrightarrow>
        cell s k' = (Some (of_int row), Some (of_int row), Some re'', Some im'') \<Longrightarrow> False"
    proof -
      fix k' re'' im''
      assume a0: "0 \<le> k'" "k' \<le> iElement s" "k' \<noteq> iElement s"
         and c: "cell s k' = (Some (of_int row), Some (of_int row), Some re'', Some im'')"
      from a0 have a: "0 \<le> k'" "k' < iElement s" by simp_all
      from inv a obtain r' c' x y where
        e: "cell s k' = (Some (of_int r'), Some (of_int c'), Some x, Some y)"
        and d: "r' = c' \<longrightarrow> r' < b"
        unfolding entries_inv_def by blast
      from e c have "r' = row" "c' = row" by simp_all
      with d b show False by simp
    qed
    show ?thesis
      apply (rule exI [of _ row], rule exI [of _ row], rule exI [of _ re], rule exI [of _ im])
      using True old by (auto simp add: cell_write_element)
  next
    case False
    with k have k': "0 \<le> k" "k < iElement s" by simp_all
    from inv k' obtain r' c' x y where
      e: "cell s k = (Some (of_int r'), Some (of_int c'), Some x, Some y)"
      and m: "r' \<noteq> c' \<longrightarrow> (\<exists>k'. 0 \<le> k' \<and> k' < iElement s \<and>
                 cell s k' = (Some (of_int c'), Some (of_int r'), Some x, Some y))"
      and d: "r' = c' \<longrightarrow> r' < b \<and> (\<forall>k' re' im'. 0 \<le> k' \<and> k' < iElement s \<and>
                 cell s k' = (Some (of_int r'), Some (of_int r'), Some re', Some im')
                 \<longrightarrow> k' = k)"
      unfolding entries_inv_def by blast
    show ?thesis
      apply (rule exI [of _ r'], rule exI [of _ c'], rule exI [of _ x], rule exI [of _ y])
      using False k' e m d b
      apply (simp add: cell_write_element)
      apply (intro conjI impI)
       apply (metis less_le_not_le order_less_imp_le zless_add1_eq)
      apply auto
      done
  qed
qed

lemma entries_inv_pair:
  assumes inv: "entries_inv b s" and ne: "row \<noteq> col"
  shows "entries_inv b (write_element col row re im (write_element row col re im s))"
  unfolding entries_inv_def
proof (intro conjI allI impI)
  let ?s' = "write_element col row re im (write_element row col re im s)"
  have n: "0 \<le> iElement s" using inv by (simp add: entries_inv_def)
  then show "0 \<le> iElement ?s'" by simp
  have cell': "\<And>k. cell ?s' k =
      (if k = iElement s + 1 then (Some (of_int col), Some (of_int row), Some re, Some im)
       else if k = iElement s then (Some (of_int row), Some (of_int col), Some re, Some im)
       else cell s k)"
    by (simp add: cell_write_element)
  have nodiag: "\<And>k r' x y. cell ?s' k = (Some (of_int r'), Some (of_int r'), Some x, Some y) \<Longrightarrow>
      k \<noteq> iElement s \<and> k \<noteq> iElement s + 1"
    using ne by (auto simp add: cell' split: if_splits)
  fix k
  assume k: "0 \<le> k \<and> k < iElement ?s'"
  show "\<exists>row' col' re' im'.
           cell ?s' k = (Some (of_int row'), Some (of_int col'), Some re', Some im') \<and>
           (row' \<noteq> col' \<longrightarrow>
              (\<exists>k'. 0 \<le> k' \<and> k' < iElement ?s' \<and>
                 cell ?s' k' = (Some (of_int col'), Some (of_int row'), Some re', Some im'))) \<and>
           (row' = col' \<longrightarrow>
              row' < b \<and>
              (\<forall>k' re'' im''. 0 \<le> k' \<and> k' < iElement ?s' \<and>
                 cell ?s' k' = (Some (of_int row'), Some (of_int row'), Some re'', Some im'')
                 \<longrightarrow> k' = k))"
  proof -
    consider (first) "k = iElement s" | (second) "k = iElement s + 1"
      | (old) "0 \<le> k" "k < iElement s"
      using k by fastforce
    then show ?thesis
    proof cases
      case first
      show ?thesis
        apply (rule exI [of _ row], rule exI [of _ col], rule exI [of _ re], rule exI [of _ im])
        using first ne n
        apply (simp add: cell')
        apply (rule exI [of _ "iElement s + 1"])
        apply simp
        done
    next
      case second
      show ?thesis
        apply (rule exI [of _ col], rule exI [of _ row], rule exI [of _ re], rule exI [of _ im])
        using second ne n
        apply (simp add: cell')
        apply (rule exI [of _ "iElement s"])
        apply simp
        done
    next
      case old
      from inv old obtain r' c' x y where
        e: "cell s k = (Some (of_int r'), Some (of_int c'), Some x, Some y)"
        and m: "r' \<noteq> c' \<longrightarrow> (\<exists>k'. 0 \<le> k' \<and> k' < iElement s \<and>
                   cell s k' = (Some (of_int c'), Some (of_int r'), Some x, Some y))"
        and d: "r' = c' \<longrightarrow> r' < b \<and> (\<forall>k' re' im'. 0 \<le> k' \<and> k' < iElement s \<and>
                   cell s k' = (Some (of_int r'), Some (of_int r'), Some re', Some im')
                   \<longrightarrow> k' = k)"
        unfolding entries_inv_def by blast
      have e': "cell ?s' k = (Some (of_int r'), Some (of_int c'), Some x, Some y)"
        using old e by (simp add: cell')
      have m': "r' \<noteq> c' \<longrightarrow> (\<exists>k'. 0 \<le> k' \<and> k' < iElement ?s' \<and>
                   cell ?s' k' = (Some (of_int c'), Some (of_int r'), Some x, Some y))"
      proof
        assume "r' \<noteq> c'"
        with m obtain k' where k': "0 \<le> k'" "k' < iElement s"
          "cell s k' = (Some (of_int c'), Some (of_int r'), Some x, Some y)" by blast
        then have "0 \<le> k' \<and> k' < iElement ?s' \<and>
                   cell ?s' k' = (Some (of_int c'), Some (of_int r'), Some x, Some y)"
          by (simp add: cell')
        then show "\<exists>k'. 0 \<le> k' \<and> k' < iElement ?s' \<and>
                   cell ?s' k' = (Some (of_int c'), Some (of_int r'), Some x, Some y)" ..
      qed
      have d': "r' = c' \<longrightarrow> r' < b \<and> (\<forall>k' re' im'. 0 \<le> k' \<and> k' < iElement ?s' \<and>
                   cell ?s' k' = (Some (of_int r'), Some (of_int r'), Some re', Some im')
                   \<longrightarrow> k' = k)"
      proof (intro impI conjI allI)
        assume "r' = c'"
        with d show "r' < b" by simp
      next
        fix k' re' im'
        assume rc: "r' = c'"
          and a: "0 \<le> k' \<and> k' < iElement ?s' \<and>
                   cell ?s' k' = (Some (of_int r'), Some (of_int r'), Some re', Some im')"
        from a nodiag have "k' \<noteq> iElement s \<and> k' \<noteq> iElement s + 1" by blast
        with a have "0 \<le> k' \<and> k' < iElement s \<and>
                   cell s k' = (Some (of_int r'), Some (of_int r'), Some re', Some im')"
          by (simp add: cell')
        with d rc show "k' = k" by blast
      qed
      show ?thesis
        apply (rule exI [of _ r'], rule exI [of _ c'], rule exI [of _ x], rule exI [of _ y])
        using e' m' d' by blast
    qed
  qed
qed

lemma write_element_frame [simp]:
  "iRow (write_element row col re im s) = iRow s"
  "iCol (write_element row col re im s) = iCol s"
  "diagRC (write_element row col re im s) = diagRC s"
  by (simp_all add: write_element_def)

lemma cell_counters [simp]:
  "cell (s\<lparr> iCol := j, diagRC := d \<rparr>) = cell s"
  "cell (s\<lparr> iRow := i \<rparr>) = cell s"
  "cell (s\<lparr> nRows := i, nElements := n \<rparr>) = cell s"
  by (simp_all add: cell_def fun_eq_iff)

lemma column_body_in_row_inv:
  assumes inv: "in_row_inv s" and run: "column_body jjj g r c s = Some (Done s')"
  shows "in_row_inv s'"
proof -
  let ?G = "GammaElement jjj g r c" and ?L = "LiouvilleElement jjj g r c"
  obtain s1 where st: "store_element g ?G ?L s = Done s1" and nx: "next_column g s1 = Done s'"
    using run by (auto simp add: column_body_def split: res.splits)
  have s': "s' = s1\<lparr> iCol := iCol s1 + 1, diagRC := False \<rparr>"
    using nx by (auto simp add: next_column_def Let_def split: if_splits)
  have le: "iRow s \<le> iCol s"
    using inv by (cases "diagRC s") (simp_all add: in_row_inv_def)
  have old: "entries_inv (iRow s + 1) s"
    using inv by (cases "diagRC s") (auto simp add: in_row_inv_def intro: entries_inv_mono)
  have s1: "entries_inv (iRow s + 1) s1 \<and> iRow s1 = iRow s \<and> iCol s1 = iCol s"
  proof (cases "?G \<noteq> 0 \<or> ?L \<noteq> 0")
    case False
    then have "s1 = s" using st by (simp add: store_element_def)
    with old show ?thesis by simp
  next
    case nz: True
    show ?thesis
    proof (cases "diagRC s")
      case True
      then have "s1 = write_element (iRow s) (iCol s) ?G (- ?L) s"
        using st nz by (auto simp add: store_element_def Let_def split: if_splits)
      moreover have "iCol s = iRow s" "entries_inv (iRow s) s"
        using inv True by (simp_all add: in_row_inv_def)
      ultimately show ?thesis
        using entries_inv_diag [of "iRow s" s "iRow s" ?G "- ?L"] by simp
    next
      case False
      then have "s1 = write_element (iCol s) (iRow s) ?G (- ?L)
                        (write_element (iRow s) (iCol s) ?G (- ?L) s)"
        using st nz by (auto simp add: store_element_def Let_def split: if_splits)
      moreover have "iRow s \<noteq> iCol s"
        using inv False by (simp_all add: in_row_inv_def)
      ultimately show ?thesis
        using entries_inv_pair [of "iRow s + 1" s "iRow s" "iCol s" ?G "- ?L"] old by simp
    qed
  qed
  have "entries_inv (iRow s + 1) s'"
    by (rule entries_inv_frame [of _ s1]) (simp_all add: s' s1)
  then show ?thesis
    using le s1 by (simp add: in_row_inv_def s')
qed

lemma row_body_between_rows_inv:
  assumes inv: "between_rows_inv s" and run: "row_body jjj g r s = Some (Done s')"
  shows "between_rows_inv s'"
proof -
  let ?s0 = "s\<lparr> iCol := iRow s, diagRC := True \<rparr>"
  obtain s1 where cols: "makematrix_L2 jjj g r ?s0 = Some (Done s1)"
    and s': "s' = s1\<lparr> iRow := iRow s1 + 1 \<rparr>"
    using run by (auto simp add: row_body_def Let_def split: option.splits res.splits if_splits)
  have "entries_inv (iRow s) ?s0"
    by (rule entries_inv_frame [of _ s]) (use inv in \<open>simp_all add: between_rows_inv_def\<close>)
  then have s0: "in_row_inv ?s0"
    by (simp add: in_row_inv_def)
  have "case Done s1 of Done t \<Rightarrow> in_row_inv t | Fatal m t \<Rightarrow> True"
    by (rule makematrix_L2_rule [where P = in_row_inv and Q = "\<lambda>_ _. True", OF cols s0]) (erule (1) column_body_in_row_inv, simp)
  then have "entries_inv (iRow s1 + 1) s1"
    by (cases "diagRC s1") (auto simp add: in_row_inv_def intro: entries_inv_mono)
  then have "entries_inv (iRow s1 + 1) s'"
    by (rule entries_inv_frame [rotated 2]) (simp_all add: s')
  then show ?thesis
    by (simp add: s' between_rows_inv_def)
qed

lemma makematrix_entries_inv:
  assumes "makematrix jjj g = Some (Done s)"
  shows "entries_inv (nRows s) s" and "nElements s = iElement s"
proof -
  obtain s1 where rows: "makematrix_L1 jjj g mm_init = Some (Done s1)"
    and s: "s = s1\<lparr> nRows := iRow s1, nElements := iElement s1 \<rparr>"
    using assms by (auto simp add: makematrix_def split: option.splits res.splits)
  have init: "between_rows_inv mm_init"
    by (auto simp add: between_rows_inv_def entries_inv_def mm_init_def)
  have "case Done s1 of Done t \<Rightarrow> between_rows_inv t | Fatal m t \<Rightarrow> True"
    by (rule makematrix_L1_rule [where P = between_rows_inv and Q = "\<lambda>_ _. True", OF rows init]) (erule (1) row_body_between_rows_inv, simp)
  then have "entries_inv (iRow s1) s1"
    by (simp add: between_rows_inv_def)
  then have "entries_inv (iRow s1) s"
    by (rule entries_inv_frame [rotated 2]) (simp_all add: s)
  then show "entries_inv (nRows s) s"
    by (simp add: s)
  show "nElements s = iElement s"
    by (simp add: s)
qed

text \<open>
  Claim C3: in the arrays that a completed run of \<^verbatim>\<open>makematrix\<close> returns, every entry
  whose row index differs from its column index has a companion entry with the two indices
  exchanged and the same real and imaginary part, and a diagonal entry is the only entry
  with its row and column index.
\<close>

theorem makematrix_mirrors_off_diagonal_entries:
  assumes run: "makematrix jjj g = Some (Done s)" and k: "0 \<le> k" "k < nElements s"
  shows "\<exists>row col re im.
           ridx s k = Some row \<and> cidx s k = Some col \<and>
           MatrixRe s k = Some re \<and> MatrixIm s k = Some im \<and>
           (row \<noteq> col \<longrightarrow>
              (\<exists>k'. 0 \<le> k' \<and> k' < nElements s \<and>
                 ridx s k' = Some col \<and> cidx s k' = Some row \<and>
                 MatrixRe s k' = Some re \<and> MatrixIm s k' = Some im)) \<and>
           (row = col \<longrightarrow>
              (\<forall>k'. 0 \<le> k' \<and> k' < nElements s \<and>
                 ridx s k' = Some row \<and> cidx s k' = Some col \<longrightarrow> k' = k))"
proof -
  have inv: "entries_inv (nRows s) s" and n: "nElements s = iElement s"
    using makematrix_entries_inv [OF run] by simp_all
  have cells: "\<And>j. 0 \<le> j \<Longrightarrow> j < iElement s \<Longrightarrow>
      \<exists>row col re im. cell s j = (Some (of_int row), Some (of_int col), Some re, Some im)"
    using inv unfolding entries_inv_def by blast
  from inv k n obtain r' c' x y where
    e: "cell s k = (Some (of_int r'), Some (of_int c'), Some x, Some y)"
    and m: "r' \<noteq> c' \<longrightarrow> (\<exists>k'. 0 \<le> k' \<and> k' < iElement s \<and>
               cell s k' = (Some (of_int c'), Some (of_int r'), Some x, Some y))"
    and d: "r' = c' \<longrightarrow> r' < nRows s \<and> (\<forall>k' re' im'. 0 \<le> k' \<and> k' < iElement s \<and>
               cell s k' = (Some (of_int r'), Some (of_int r'), Some re', Some im')
               \<longrightarrow> k' = k)"
    unfolding entries_inv_def by (metis (no_types, lifting))
  have mirror: "of_int r' \<noteq> (of_int c' :: real) \<longrightarrow>
      (\<exists>k'. 0 \<le> k' \<and> k' < nElements s \<and>
         ridx s k' = Some (of_int c') \<and> cidx s k' = Some (of_int r') \<and>
         MatrixRe s k' = Some x \<and> MatrixIm s k' = Some y)"
    using m n by (auto simp add: cell_def)
  have unique: "of_int r' = (of_int c' :: real) \<longrightarrow>
      (\<forall>k'. 0 \<le> k' \<and> k' < nElements s \<and>
         ridx s k' = Some (of_int r') \<and> cidx s k' = Some (of_int c') \<longrightarrow> k' = k)"
  proof (intro impI allI)
    fix k'
    assume rc: "of_int r' = (of_int c' :: real)"
      and a: "0 \<le> k' \<and> k' < nElements s \<and>
         ridx s k' = Some (of_int r') \<and> cidx s k' = Some (of_int c')"
    from a n cells [of k'] obtain r2 c2 x2 y2 where
      "cell s k' = (Some (of_int r2), Some (of_int c2), Some x2, Some y2)" by auto
    with a rc have "cell s k' = (Some (of_int r'), Some (of_int r'), Some x2, Some y2)"
      by (simp add: cell_def)
    with d rc a n show "k' = k" by auto
  qed
  show ?thesis
    apply (rule exI [of _ "of_int r'"], rule exI [of _ "of_int c'"])
    apply (rule exI [of _ x], rule exI [of _ y])
    using e mirror unique by (simp add: cell_def)
qed

theorem makematrix_mirrors_off_diagonal_entries_witness:
  "case makematrix jjj_zero globals_small of
     Some (Done s) \<Rightarrow>
       nRows s = 3 \<and> nElements s = 4 \<and> ridx s 1 = Some 0 \<and> cidx s 1 = Some 1 \<and>
       MatrixRe s 1 = Some (- 1) \<and> MatrixIm s 1 = Some 0 \<and>
       (\<exists>k'. 0 \<le> k' \<and> k' < nElements s \<and> ridx s k' = Some 1 \<and> cidx s k' = Some 0 \<and>
          MatrixRe s k' = Some (- 1) \<and> MatrixIm s k' = Some 0)
   | _ \<Rightarrow> False"
proof -
  have "\<exists>s. makematrix jjj_zero globals_small = Some (Done s) \<and>
       nRows s = 3 \<and> nElements s = 4 \<and> ridx s 1 = Some 0 \<and> cidx s 1 = Some 1 \<and>
       MatrixRe s 1 = Some (- 1) \<and> MatrixIm s 1 = Some 0"
    by (simp add: eval_inputs eval_basis eval_makematrix eval_element)
  then obtain s where run: "makematrix jjj_zero globals_small = Some (Done s)"
    and f: "nRows s = 3" "nElements s = 4" "ridx s 1 = Some 0" "cidx s 1 = Some 1"
       "MatrixRe s 1 = Some (- 1)" "MatrixIm s 1 = Some 0"
    by blast
  from makematrix_mirrors_off_diagonal_entries [OF run, of 1] f
  have "\<exists>k'. 0 \<le> k' \<and> k' < nElements s \<and> ridx s k' = Some 1 \<and> cidx s k' = Some 0 \<and>
          MatrixRe s k' = Some (- 1) \<and> MatrixIm s k' = Some 0"
    by auto
  with run f show ?thesis by simp
qed

section \<open>What an entry holds\<close>









section \<open>Where the elements vanish\<close>


lemma R_rank2_far:
  assumes "2 < \<bar>L1 - L2\<bar> \<or> (2 < \<bar>K1 - K2\<bar> \<and> 2 < \<bar>K1 + K2\<bar>)"
  shows "R_rank2 jjj ReT ImT L1 jK1 K1 L2 jK2 K2 = 0"
  using assms by (auto simp add: R_rank2_def Let_def)

lemma Liouville_EZI_no_coupling:
  "Liouville_EZI n d 0 E inc pS1 pSd qSd = (if inc then E * (- sqrt13 * of_int pS1) else 0)"
  by (simp add: Liouville_EZI_def Let_def split: prod.splits)

lemma Liouville_HFI_no_coupling:
  "inc \<longrightarrow> H = 0 \<Longrightarrow> Liouville_HFI n d 0 H inc sp pS1 qS1 pI1 qI1 pSd qSd pId qId = 0"
  by (simp add: Liouville_HFI_def Let_def split: prod.splits)

lemma Liouville_terms_no_coupling:
  assumes R: "R_EZI2 jjj g L1 jK1 K1 L2 jK2 K2 = 0" "R_HFI2 jjj g L1 jK1 K1 L2 jK2 K2 = 0"
             "R_HFI2b jjj g L1 jK1 K1 L2 jK2 K2 = 0"
      and rank0: "(L1 = L2 \<and> K1 = K2 \<and> jK1 = jK2 \<and> M1 = M2) \<longrightarrow>
                  EZI0 (Sys g) = 0 \<and> HFI0 (Sys g) = 0 \<and> HFI0b (Sys g) = 0 \<and>
                  NZI0 (Sys g) = 0 \<and> NZI0b (Sys g) = 0"
  shows "Liouville_terms n jjj g (L1, jK1, K1, M1, pS1, qS1, pI1, qI1, pI1b, qI1b)
           (L2, jK2, K2, M2, pS2, qS2, pI2, qI2, pI2b, qI2b) = 0"
  unfolding Liouville_terms_def prod.case Let_def R
  using rank0
  by (simp add: Liouville_EZI_no_coupling Liouville_HFI_no_coupling)

section \<open>Zero interactions and isotropic diffusion\<close>



section \<open>Band limits\<close>

text \<open>
  Claim C6, as stated, fails for the sum \<open>K1 + K2\<close>: the limit 8 on it guards the
  potential-dependent term only. With a potential present, the basis index with
  \<open>L = K = 5\<close> paired with itself (\<open>K1 + K2 = 10\<close>) has the diffusion element 30, and the
  run stores it as the entry of row 3 and column 3.
\<close>

theorem entry_stored_with_K_sum_above_band:
  "Potential globals_band
   \<and> basis globals_band ! 3 = (5, 1, 5, 0, 1, 0, 0, 0, 0, 0)
   \<and> GammaElement jjj_zero globals_band (5, 1, 5, 0, 1, 0, 0, 0, 0, 0)
        (5, 1, 5, 0, 1, 0, 0, 0, 0, 0) = 30
   \<and> (case makematrix jjj_zero globals_band of
        Some (Done s) \<Rightarrow>
          nRows s = 4 \<and> nElements s = 3 \<and> cell s 2 = (Some 3, Some 3, Some 30, Some 0)
      | _ \<Rightarrow> False)"
  by (simp add: eval_more eval_inputs eval_basis eval_makematrix eval_element eval_enum cell_def)

text \<open>
  Claim C6, amended. For basis indices with \<open>K1, K2 \<ge> 0\<close> (every index of the basis),
  an entry is stored only for a pair whose orbital ranks differ by at most 8 and whose
  difference \<open>K1 - K2\<close> is at most 8 in absolute value, and the potential-dependent
  diffusion term is zero unless, in addition, \<open>K1 + K2\<close> is at most 8 in absolute value.
  The sum \<open>K1 + K2\<close> of a stored entry is not limited.
\<close>

theorem stored_entry_within_band:
  assumes K: "0 \<le> K1" "0 \<le> K2"
      and stored: "GammaElement jjj g (L1, jK1, K1, M1, pS1, qS1, pI1, qI1, pI1b, qI1b) (L2, jK2, K2, M2, pS2, qS2, pI2, qI2, pI2b, qI2b) \<noteq> 0 \<or> LiouvilleElement jjj g (L1, jK1, K1, M1, pS1, qS1, pI1, qI1, pI1b, qI1b) (L2, jK2, K2, M2, pS2, qS2, pI2, qI2, pI2b, qI2b) \<noteq> 0"
  shows "\<bar>L1 - L2\<bar> \<le> 8 \<and> \<bar>K1 - K2\<bar> \<le> 8
       \<and> (PotDiff jjj g L1 jK1 K1 M1 L2 jK2 K2 \<noteq> 0 \<longrightarrow> \<bar>K1 + K2\<bar> \<le> 8)"
proof -
  have pot: "PotDiff jjj g L1 jK1 K1 M1 L2 jK2 K2 \<noteq> 0 \<longrightarrow> \<bar>K1 + K2\<bar> \<le> 8"
    by (simp add: PotDiff_def Let_def Kband_def)
  have "\<bar>L1 - L2\<bar> \<le> 8 \<and> \<bar>K1 - K2\<bar> \<le> 8"
  proof (rule ccontr)
    assume far: "\<not> (\<bar>L1 - L2\<bar> \<le> 8 \<and> \<bar>K1 - K2\<bar> \<le> 8)"
    with K have R: "2 < \<bar>L1 - L2\<bar> \<or> (2 < \<bar>K1 - K2\<bar> \<and> 2 < \<bar>K1 + K2\<bar>)"
      by linarith
    have ne: "\<not> (L1 = L2 \<and> K1 = K2)"
      using far by auto
    have "LiouvilleElement jjj g (L1, jK1, K1, M1, pS1, qS1, pI1, qI1, pI1b, qI1b) (L2, jK2, K2, M2, pS2, qS2, pI2, qI2, pI2b, qI2b) = 0"
      unfolding LiouvilleElement_def prod.case
    proof (rule Liouville_terms_no_coupling)
      show "R_EZI2 jjj g L1 jK1 K1 L2 jK2 K2 = 0"
        unfolding R_EZI2_def by (rule R_rank2_far [OF R])
      show "R_HFI2 jjj g L1 jK1 K1 L2 jK2 K2 = 0"
        unfolding R_HFI2_def by (rule R_rank2_far [OF R])
      show "R_HFI2b jjj g L1 jK1 K1 L2 jK2 K2 = 0"
        unfolding R_HFI2b_def by (rule R_rank2_far [OF R])
      show "L1 = L2 \<and> K1 = K2 \<and> jK1 = jK2 \<and> M1 = M2 \<longrightarrow>
            EZI0 (Sys g) = 0 \<and> HFI0 (Sys g) = 0 \<and> HFI0b (Sys g) = 0 \<and>
            NZI0 (Sys g) = 0 \<and> NZI0b (Sys g) = 0"
        using ne by blast
    qed
    moreover have "GammaElement jjj g (L1, jK1, K1, M1, pS1, qS1, pI1, qI1, pI1b, qI1b) (L2, jK2, K2, M2, pS2, qS2, pI2, qI2, pI2b, qI2b) = 0"
    proof (cases "\<bar>L1 - L2\<bar> \<le> 8")
      case False
      then have "L1 \<noteq> L2" by auto
      with False show ?thesis
        by (simp add: GammaElement_def Let_def PotDiff_def Lband_def Kband_def)
    next
      case True
      with far have "\<not> \<bar>K1 - K2\<bar> \<le> 8" by simp
      moreover from this have "K1 - K2 \<noteq> 0" "K1 - K2 \<noteq> 2" "K1 - K2 \<noteq> - 2" "K1 \<noteq> K2"
        by auto
      ultimately show ?thesis
        by (simp add: GammaElement_def Let_def PotDiff_def Lband_def Kband_def)
    qed
    ultimately show False using stored by simp
  qed
  with pot show ?thesis by simp
qed

theorem stored_entry_within_band_witness:
  "GammaElement jjj_zero globals_band (5, 1, 5, 0, 1, 0, 0, 0, 0, 0)
     (5, 1, 5, 0, 1, 0, 0, 0, 0, 0) = 30
   \<and> \<bar>(5::int) - 5\<bar> \<le> 8
   \<and> PotDiff jjj_zero globals_band 5 1 5 0 5 1 5 = 0"
proof -
  have G: "GammaElement jjj_zero globals_band (5, 1, 5, 0, 1, 0, 0, 0, 0, 0)
     (5, 1, 5, 0, 1, 0, 0, 0, 0, 0) = 30"
    by (simp add: eval_more eval_inputs eval_element Let_def)
  have "\<not> \<bar>(5::int) + 5\<bar> \<le> 8" by simp
  with G show ?thesis
    using stored_entry_within_band
            [of 5 5 jjj_zero globals_band 5 1 0 1 0 0 0 0 0 5 1 0 1 0 0 0 0 0]
    by auto
qed

section \<open>Loops with a positive step as lists\<close>

lemma c_range_empty: "hi < x \<Longrightarrow> c_range x hi step = []"
  by (subst c_range.simps) simp

lemma c_range_Cons:
  "0 < step \<Longrightarrow> x \<le> hi \<Longrightarrow> c_range x hi step = x # c_range (x + step) hi step"
  by (subst c_range.simps) simp

lemma c_range_bounds: "y \<in> set (c_range x hi step) \<Longrightarrow> x \<le> y \<and> y \<le> hi \<and> 0 < step"
proof (induction x hi step rule: c_range.induct)
  case (1 x hi step)
  show ?case
  proof (cases "0 < step \<and> x \<le> hi")
    case False
    with "1.prems" show ?thesis by (subst (asm) c_range.simps) simp
  next
    case True
    with "1.prems" have "y = x \<or> y \<in> set (c_range (x + step) hi step)"
      by (subst (asm) c_range.simps) simp
    with True "1.IH" show ?thesis by fastforce
  qed
qed

lemma c_range_self: "0 < step \<Longrightarrow> y \<le> hi \<Longrightarrow> y \<in> set (c_range y hi step)"
  by (simp add: c_range_Cons)

lemma c_range_resume:
  "y \<in> set (c_range x hi step) \<Longrightarrow> set (c_range y hi step) \<subseteq> set (c_range x hi step)"
proof (induction x hi step rule: c_range.induct)
  case (1 x hi step)
  from "1.prems" c_range_bounds have pos: "0 < step" "x \<le> hi" by fastforce+
  then have unfold: "c_range x hi step = x # c_range (x + step) hi step"
    by (rule c_range_Cons)
  show ?case
  proof (cases "y = x")
    case True
    then show ?thesis by simp
  next
    case False
    with "1.prems" unfold have "y \<in> set (c_range (x + step) hi step)" by simp
    with "1.IH" pos have "set (c_range y hi step) \<subseteq> set (c_range (x + step) hi step)" by simp
    with unfold show ?thesis by auto
  qed
qed

lemma c_range_sorted: "sorted_wrt (<) (c_range x hi step)"
proof (induction x hi step rule: c_range.induct)
  case (1 x hi step)
  show ?case
  proof (cases "0 < step \<and> x \<le> hi")
    case False
    then show ?thesis by (subst c_range.simps) auto
  next
    case True
    then have "c_range x hi step = x # c_range (x + step) hi step"
      by (simp add: c_range_Cons)
    moreover have "\<forall>y \<in> set (c_range (x + step) hi step). x < y"
      using c_range_bounds True by fastforce
    ultimately show ?thesis using "1.IH" True by simp
  qed
qed

lemma c_range_tail_above:
  "0 < step \<Longrightarrow> y \<in> set (c_range (x + step) hi step) \<Longrightarrow> y \<noteq> x"
  using c_range_bounds by fastforce

subsection \<open>Nested enumerations\<close>

lemma nest_Nil [simp]: "nest [] inner = []"
  by (simp add: nest_def)

lemma nest_Cons: "nest (x # xs) inner = map (Pair x) (inner x) @ nest xs inner"
  by (simp add: nest_def)

lemma set_nest: "set (nest xs inner) = {(x, y). x \<in> set xs \<and> y \<in> set (inner x)}"
  by (auto simp add: nest_def)

lemma nest_cong: "(\<And>x. x \<in> set xs \<Longrightarrow> f x = g x) \<Longrightarrow> nest xs f = nest xs g"
  by (induction xs) (simp_all add: nest_Cons)

lemma length_nest: "length (nest xs inner) = sum_list (map (\<lambda>x. length (inner x)) xs)"
  by (induction xs) (simp_all add: nest_Cons)

lemma sorted_nest:
  fixes inner :: "int \<Rightarrow> ('b :: linorder) list"
  assumes "sorted_wrt (<) xs" and "\<And>x. x \<in> set xs \<Longrightarrow> sorted_wrt (<) (inner x)"
  shows "sorted_wrt (<) (nest xs inner)"
  using assms
proof (induction xs)
  case Nil
  show ?case by simp
next
  case (Cons x xs)
  have head: "sorted_wrt (<) (map (Pair x) (inner x))"
    using Cons.prems(2) [of x] by (simp add: sorted_wrt_map less_prod_def)
  have tail: "sorted_wrt (<) (nest xs inner)"
    using Cons by simp
  have "\<forall>a \<in> set (map (Pair x) (inner x)). \<forall>b \<in> set (nest xs inner). a < b"
    using Cons.prems(1) by (auto simp add: set_nest less_prod_def)
  with head tail show ?case
    by (simp add: nest_Cons sorted_wrt_append)
qed

subsection \<open>Loops over lists\<close>

lemma for_list_count:
  assumes "\<And>x n. x \<in> set xs \<Longrightarrow> body x n = Some (Done (n + int (length (inner x))))"
  shows "for_list body xs n = Some (Done (n + int (length (nest xs inner))))"
  using assms by (induction xs arbitrary: n) (simp_all add: nest_Cons)

lemma for_list_flag_stays:
  assumes "for_list h xs s = Some (Done s')" and "\<not> flag s"
      and "\<And>x s s'. h x s = Some (Done s') \<Longrightarrow> \<not> flag s'"
  shows "\<not> flag s'"
  using assms(1,2)
proof (induction xs arbitrary: s)
  case Nil
  then show ?case by simp
next
  case (Cons x xs)
  from Cons.prems(1) obtain s1 where "h x s = Some (Done s1)" "for_list h xs s1 = Some (Done s')"
    by (auto split: option.splits res.splits)
  moreover from this have "\<not> flag s1" using assms(3) by simp
  ultimately show ?case using Cons.IH by simp
qed

lemma for_list_flag_cleared:
  assumes "for_list h xs s = Some (Done s')" and "xs \<noteq> []"
      and "\<And>x s s'. h x s = Some (Done s') \<Longrightarrow> \<not> flag s'"
  shows "\<not> flag s'"
proof (cases xs)
  case Nil
  with assms(2) show ?thesis by simp
next
  case (Cons x ys)
  with assms(1) obtain s1 where "h x s = Some (Done s1)" "for_list h ys s1 = Some (Done s')"
    by (auto split: option.splits res.splits)
  then have "\<not> flag s1" "for_list h ys s1 = Some (Done s')"
    using assms(3) by simp_all
  then show ?thesis
    using for_list_flag_stays [where flag = flag and h = h and xs = ys and s = s1 and s' = s']
          assms(3)
    by simp
qed

text \<open>
  A loop whose body runs an inner enumeration, while a flag of the state is off and
  stays off: the loop runs the nested enumeration.
\<close>

lemma for_list_flag_off:
  assumes off: "\<not> flag s"
      and body: "\<And>x s. \<not> flag s \<Longrightarrow> body x s = for_list (h x) (inner x) s"
      and clear: "\<And>x y s s'. h x y s = Some (Done s') \<Longrightarrow> \<not> flag s'"
  shows "for_list body xs s = for_list (\<lambda>(x, y). h x y) (nest xs inner) s"
proof -
  have "for_list body xs s = for_list (\<lambda>x. for_list (h x) (inner x)) xs s"
  proof (rule for_list_cong [where J = "\<lambda>s. \<not> flag s"])
    show "\<And>x s. x \<in> set xs \<Longrightarrow> \<not> flag s \<Longrightarrow> body x s = for_list (h x) (inner x) s"
      by (rule body)
    show "\<And>x s s'. x \<in> set xs \<Longrightarrow> \<not> flag s \<Longrightarrow>
        for_list (h x) (inner x) s = Some (Done s') \<Longrightarrow> \<not> flag s'"
    proof -
      fix x s s'
      assume "\<not> flag s" and "for_list (h x) (inner x) s = Some (Done s')"
      then show "\<not> flag s'"
        using for_list_flag_stays [where flag = flag and h = "h x" and xs = "inner x"
                and s = s and s' = s'] clear
        by simp
    qed
    show "\<not> flag s" by (rule off)
  qed
  then show ?thesis by (simp add: for_list_nest)
qed

lemma for_loop_flag_off:
  assumes "0 < step" and "\<not> flag s"
      and "\<And>x s. \<not> flag s \<Longrightarrow> body x s = for_list (h x) (inner x) s"
      and "\<And>x y s s'. h x y s = Some (Done s') \<Longrightarrow> \<not> flag s'"
  shows "for_loop lo hi step body s =
         for_list (\<lambda>(x, y). h x y) (nest (c_range lo hi step) inner) s"
  using assms by (simp add: for_loop_pos for_list_flag_off [where flag = flag])

text \<open>
  The same loop started with the flag on: the first round resumes the inner enumeration
  (\<open>innerT\<close>), which is not empty, so that the flag is off in all later rounds.
\<close>

lemma for_loop_flag_on:
  assumes step: "0 < step" and on: "flag s" and x0: "x0 \<le> hi"
      and first: "\<And>s. flag s \<Longrightarrow> body x0 s = for_list (h x0) innerT s"
      and ne: "innerT \<noteq> []"
      and body: "\<And>x s. \<not> flag s \<Longrightarrow> body x s = for_list (h x) (inner x) s"
      and clear: "\<And>x y s s'. h x y s = Some (Done s') \<Longrightarrow> \<not> flag s'"
  shows "for_loop x0 hi step body s =
         for_list (\<lambda>(x, y). h x y)
           (nest (c_range x0 hi step) (\<lambda>x. if x = x0 then innerT else inner x)) s"
proof -
  let ?rest = "c_range (x0 + step) hi step"
  let ?inner' = "\<lambda>x. if x = x0 then innerT else inner x"
  have range: "c_range x0 hi step = x0 # ?rest"
    using step x0 by (rule c_range_Cons)
  have rest: "nest ?rest ?inner' = nest ?rest inner"
    by (rule nest_cong) (use c_range_tail_above [OF step] in auto)
  have lhs: "for_loop x0 hi step body s =
      (case for_list (h x0) innerT s of
         None \<Rightarrow> None
       | Some (Fatal m s') \<Rightarrow> Some (Fatal m s')
       | Some (Done s') \<Rightarrow> for_list body ?rest s')"
    using step by (simp add: for_loop_pos range first [OF on])
  have rhs: "for_list (\<lambda>(x, y). h x y) (nest (c_range x0 hi step) ?inner') s =
      (case for_list (h x0) innerT s of
         None \<Rightarrow> None
       | Some (Fatal m s') \<Rightarrow> Some (Fatal m s')
       | Some (Done s') \<Rightarrow> for_list (\<lambda>(x, y). h x y) (nest ?rest inner) s')"
    by (simp add: range nest_Cons rest for_list_append for_list_map)
  show ?thesis
  proof (cases "for_list (h x0) innerT s")
    case None
    with lhs rhs show ?thesis by simp
  next
    case (Some b)
    show ?thesis
    proof (cases b)
      case (Fatal m s')
      with Some lhs rhs show ?thesis by simp
    next
      case (Done s')
      with Some have "for_list (h x0) innerT s = Some (Done s')" by simp
      then have "\<not> flag s'"
        using for_list_flag_cleared [where flag = flag and h = "h x0" and xs = innerT
                and s = s and s' = s'] ne clear
        by simp
      then have "for_list body ?rest s' = for_list (\<lambda>(x, y). h x y) (nest ?rest inner) s'"
        using for_list_flag_off [where flag = flag and body = body and h = h and inner = inner
                and s = s' and xs = ?rest] body clear
        by simp
      with Some Done lhs rhs show ?thesis by simp
    qed
  qed
qed

section \<open>The loops of the source run the enumerator\<close>

lemma and_of_bool_nonzero [simp]: "(of_bool a AND of_bool b \<noteq> (0::int)) = (a \<and> b)"
  by (cases a; cases b) simp_all

lemma meirovitch_filter [simp]:
  "(pI + pIb + pS - 1 = (M::int)) = (pI + pIb + pS - M = 1)"
  by auto

lemma start_at_simps [simp]:
  "start_at None sel lo = lo"
  "start_at (Some r) sel lo = sel r"
  by (simp_all add: start_at_def)

lemma resume_simps [simp]:
  "resume None sel x = None"
  "resume (Some r) sel x = (if x = sel r then Some r else None)"
  by (simp_all add: resume_def)

lemma qn_simps [simp]:
  "qn_L (L1, jK1, K1, M1, pS1, qS1, pI1, qI1, pI1b, qI1b) = L1" "qn_jK (L1, jK1, K1, M1, pS1, qS1, pI1, qI1, pI1b, qI1b) = jK1" "qn_K (L1, jK1, K1, M1, pS1, qS1, pI1, qI1, pI1b, qI1b) = K1" "qn_M (L1, jK1, K1, M1, pS1, qS1, pI1, qI1, pI1b, qI1b) = M1" "qn_pS (L1, jK1, K1, M1, pS1, qS1, pI1, qI1, pI1b, qI1b) = pS1"
  "qn_qS (L1, jK1, K1, M1, pS1, qS1, pI1, qI1, pI1b, qI1b) = qS1" "qn_pI (L1, jK1, K1, M1, pS1, qS1, pI1, qI1, pI1b, qI1b) = pI1" "qn_qI (L1, jK1, K1, M1, pS1, qS1, pI1, qI1, pI1b, qI1b) = qI1" "qn_pIb (L1, jK1, K1, M1, pS1, qS1, pI1, qI1, pI1b, qI1b) = pI1b" "qn_qIb (L1, jK1, K1, M1, pS1, qS1, pI1, qI1, pI1b, qI1b) = qI1b"
  by (simp_all add: qn_L_def qn_jK_def qn_K_def qn_M_def qn_pS_def qn_qS_def qn_pI_def
        qn_qI_def qn_pIb_def qn_qIb_def)

lemma for_list_count_one:
  "for_list (\<lambda>x n. Some (Done (n + 1))) xs n = Some (Done (n + int (length xs)))"
  by (induction xs arbitrary: n) simp_all

lemma for_loop_count:
  assumes "0 < step"
      and "\<And>x n. body x n = Some (Done (n + int (length (inner x))))"
  shows "for_loop lo hi step body n =
         Some (Done (n + int (length (nest (c_range lo hi step) inner))))"
  using assms by (simp add: for_loop_pos for_list_count)

lemma for_loop_nest:
  assumes "0 < step" and "\<And>x s. body x s = for_list (\<lambda>y. H (x, y)) (inner x) s"
  shows "for_loop lo hi step body s = for_list H (nest (c_range lo hi step) inner) s"
proof -
  have "body = (\<lambda>x. for_list (\<lambda>y. H (x, y)) (inner x))"
    by (rule ext, rule ext) (rule assms(2))
  with assms(1) show ?thesis
    using for_list_nest [where h = "\<lambda>x y. H (x, y)"]
    by (simp add: for_loop_pos)
qed

lemma for_loop_nest_flag_off:
  assumes "0 < step" and "\<not> flag s"
      and "\<And>x s. \<not> flag s \<Longrightarrow> body x s = for_list (\<lambda>y. H (x, y)) (inner x) s"
      and "\<And>c s s'. H c s = Some (Done s') \<Longrightarrow> \<not> flag s'"
  shows "for_loop lo hi step body s = for_list H (nest (c_range lo hi step) inner) s"
  using for_loop_flag_off [where h = "\<lambda>x y. H (x, y)" and flag = flag, OF assms(1,2)] assms(3,4)
  by simp

lemma for_loop_nest_flag_on:
  assumes "0 < step" and "flag s" and "x0 \<le> hi"
      and "\<And>s. flag s \<Longrightarrow> body x0 s = for_list (\<lambda>y. H (x0, y)) innerT s"
      and "innerT \<noteq> []"
      and "\<And>x s. \<not> flag s \<Longrightarrow> body x s = for_list (\<lambda>y. H (x, y)) (inner x) s"
      and "\<And>c s s'. H c s = Some (Done s') \<Longrightarrow> \<not> flag s'"
  shows "for_loop x0 hi step body s =
         for_list H (nest (c_range x0 hi step) (\<lambda>x. if x = x0 then innerT else inner x)) s"
  using for_loop_flag_on [where h = "\<lambda>x y. H (x, y)" and flag = flag, OF assms(1,2,3)]
        assms(4,5,6,7)
  by simp

lemma column_body_clears_diagRC:
  "column_body jjj g r c s = Some (Done s') \<Longrightarrow> \<not> diagRC s'"
  by (auto simp add: column_body_def next_column_def Let_def split: res.splits if_splits)


subsection \<open>BasisSize counts the enumeration\<close>

lemma BasisSize_qI1b_count:
  "BasisSize_qI1b g pI1b n =
     Some (Done (n + int (length (enum_qIb None g pI1b))))"
  by (simp add: BasisSize_qI1b_def enum_qIb_def Let_def for_loop_pos for_list_count_one)

lemma BasisSize_pI1b_count:
  "BasisSize_pI1b g M1 pS1 pI1 n =
     Some (Done (n + int (length (enum_pIb None g M1 pS1 pI1))))"
  unfolding BasisSize_pI1b_def enum_pIb_def Let_def start_at_simps resume_simps
  by (rule for_loop_count) (simp_all add: BasisSize_qI1b_count)

lemma BasisSize_qI1_count:
  "BasisSize_qI1 g M1 pS1 pI1 n =
     Some (Done (n + int (length (enum_qI None g M1 pS1 pI1))))"
  unfolding BasisSize_qI1_def enum_qI_def Let_def start_at_simps resume_simps
  by (rule for_loop_count) (simp_all add: BasisSize_pI1b_count)

lemma BasisSize_pI1_count:
  "BasisSize_pI1 g M1 pS1 n =
     Some (Done (n + int (length (enum_pI None g M1 pS1))))"
  unfolding BasisSize_pI1_def enum_pI_def Let_def start_at_simps resume_simps
  by (rule for_loop_count) (simp_all add: BasisSize_qI1_count)

lemma BasisSize_qS1_count:
  "BasisSize_qS1 g M1 pS1 n =
     Some (Done (n + int (length (enum_qS None g M1 pS1))))"
  unfolding BasisSize_qS1_def enum_qS_def Let_def start_at_simps resume_simps
  by (rule for_loop_count) (simp_all add: BasisSize_pI1_count)

lemma BasisSize_pS1_count:
  "BasisSize_pS1 g M1 n =
     Some (Done (n + int (length (enum_pS None g M1))))"
  unfolding BasisSize_pS1_def enum_pS_def Let_def start_at_simps resume_simps
  by (rule for_loop_count) (simp_all add: BasisSize_qS1_count)

lemma BasisSize_M1_count:
  "BasisSize_M1 g L1 n =
     Some (Done (n + int (length (enum_M None g L1))))"
  unfolding BasisSize_M1_def enum_M_def Let_def start_at_simps resume_simps
  by (rule for_loop_count) (simp_all add: BasisSize_pS1_count)

lemma BasisSize_K1_count:
  assumes "0 < deltaK g"
  shows "BasisSize_K1 g L1 jK1 n =
     Some (Done (n + int (length (enum_K None g L1 jK1))))"
  unfolding BasisSize_K1_def enum_K_def Let_def start_at_simps resume_simps
  by (rule for_loop_count) (simp_all add: BasisSize_M1_count assms)

lemma BasisSize_jK1_count:
  assumes "0 < deltaK g"
  shows "BasisSize_jK1 g L1 n =
     Some (Done (n + int (length (enum_jK None g L1))))"
  unfolding BasisSize_jK1_def enum_jK_def Let_def start_at_simps resume_simps
  by (rule for_loop_count) (simp_all add: BasisSize_K1_count [OF assms] assms)

lemma BasisSize_L1_count:
  assumes "0 < deltaK g"
  shows "BasisSize_L1 g n = Some (Done (n + int (length (basis g))))"
  unfolding BasisSize_L1_def basis_def
  by (rule for_loop_count) (simp_all add: BasisSize_jK1_count [OF assms])

lemma BasisSize_positive_stride:
  "0 < deltaK g \<Longrightarrow> BasisSize g = Some (int (length (basis g)))"
  by (simp add: BasisSize_def BasisSize_L1_count)


subsection \<open>The row loops of makematrix run the enumeration\<close>

lemma makematrix_qI1b_rows:
  "makematrix_qI1b jjj g L1 jK1 K1 M1 pS1 qS1 pI1 qI1 pI1b s =
     for_list (\<lambda>t. row_body jjj g (L1, jK1, K1, M1, pS1, qS1, pI1, qI1, pI1b, t))
       (enum_qIb None g pI1b) s"
  by (simp add: makematrix_qI1b_def enum_qIb_def Let_def for_loop_pos)

lemma makematrix_pI1b_rows:
  "makematrix_pI1b jjj g L1 jK1 K1 M1 pS1 qS1 pI1 qI1 s =
     for_list (\<lambda>t. row_body jjj g (L1, jK1, K1, M1, pS1, qS1, pI1, qI1, t))
       (enum_pIb None g M1 pS1 pI1) s"
  unfolding makematrix_pI1b_def enum_pIb_def Let_def start_at_simps resume_simps
  by (rule for_loop_nest) (simp_all add: makematrix_qI1b_rows)

lemma makematrix_qI1_rows:
  "makematrix_qI1 jjj g L1 jK1 K1 M1 pS1 qS1 pI1 s =
     for_list (\<lambda>t. row_body jjj g (L1, jK1, K1, M1, pS1, qS1, pI1, t))
       (enum_qI None g M1 pS1 pI1) s"
  unfolding makematrix_qI1_def enum_qI_def Let_def start_at_simps resume_simps
  by (rule for_loop_nest) (simp_all add: makematrix_pI1b_rows)

lemma makematrix_pI1_rows:
  "makematrix_pI1 jjj g L1 jK1 K1 M1 pS1 qS1 s =
     for_list (\<lambda>t. row_body jjj g (L1, jK1, K1, M1, pS1, qS1, t))
       (enum_pI None g M1 pS1) s"
  unfolding makematrix_pI1_def enum_pI_def Let_def start_at_simps resume_simps
  by (rule for_loop_nest) (simp_all add: makematrix_qI1_rows)

lemma makematrix_qS1_rows:
  "makematrix_qS1 jjj g L1 jK1 K1 M1 pS1 s =
     for_list (\<lambda>t. row_body jjj g (L1, jK1, K1, M1, pS1, t))
       (enum_qS None g M1 pS1) s"
  unfolding makematrix_qS1_def enum_qS_def Let_def start_at_simps resume_simps
  by (rule for_loop_nest) (simp_all add: makematrix_pI1_rows)

lemma makematrix_pS1_rows:
  "makematrix_pS1 jjj g L1 jK1 K1 M1 s =
     for_list (\<lambda>t. row_body jjj g (L1, jK1, K1, M1, t))
       (enum_pS None g M1) s"
  unfolding makematrix_pS1_def enum_pS_def Let_def start_at_simps resume_simps
  by (rule for_loop_nest) (simp_all add: makematrix_qS1_rows)

lemma makematrix_M1_rows:
  "makematrix_M1 jjj g L1 jK1 K1 s =
     for_list (\<lambda>t. row_body jjj g (L1, jK1, K1, t))
       (enum_M None g L1) s"
  unfolding makematrix_M1_def enum_M_def Let_def start_at_simps resume_simps
  by (rule for_loop_nest) (simp_all add: makematrix_pS1_rows)

lemma makematrix_K1_rows:
  assumes "0 < deltaK g"
  shows "makematrix_K1 jjj g L1 jK1 s =
     for_list (\<lambda>t. row_body jjj g (L1, jK1, t))
       (enum_K None g L1 jK1) s"
  unfolding makematrix_K1_def enum_K_def Let_def start_at_simps resume_simps
  by (rule for_loop_nest) (simp_all add: makematrix_M1_rows assms)

lemma makematrix_jK1_rows:
  assumes "0 < deltaK g"
  shows "makematrix_jK1 jjj g L1 s =
     for_list (\<lambda>t. row_body jjj g (L1, t))
       (enum_jK None g L1) s"
  unfolding makematrix_jK1_def enum_jK_def Let_def start_at_simps resume_simps
  by (rule for_loop_nest) (simp_all add: makematrix_K1_rows [OF assms] assms)

lemma makematrix_L1_rows:
  assumes "0 < deltaK g"
  shows "makematrix_L1 jjj g s = for_list (row_body jjj g) (basis g) s"
  unfolding makematrix_L1_def basis_def
  by (rule for_loop_nest) (simp_all add: makematrix_jK1_rows [OF assms])

subsection \<open>Facts about the enumerator\<close>

lemma set_c_range_unit: "set (c_range lo hi 1) = {lo..hi}"
proof (induction lo hi "1::int" rule: c_range.induct)
  case (1 x hi)
  show ?case
  proof (cases "x \<le> hi")
    case True
    with 1 show ?thesis by (subst c_range.simps) auto
  next
    case False
    then show ?thesis by (subst c_range.simps) auto
  qed
qed

lemma enum_qIb_sorted: "sorted_wrt (<) (enum_qIb start g pIb)"
  by (simp add: enum_qIb_def Let_def c_range_sorted)

lemma enum_pIb_sorted: "sorted_wrt (<) (enum_pIb start g M pS pI)"
  by (simp add: enum_pIb_def Let_def sorted_nest c_range_sorted enum_qIb_sorted)

lemma enum_qI_sorted: "sorted_wrt (<) (enum_qI start g M pS pI)"
  by (simp add: enum_qI_def Let_def sorted_nest c_range_sorted enum_pIb_sorted)

lemma enum_pI_sorted: "sorted_wrt (<) (enum_pI start g M pS)"
  by (simp add: enum_pI_def Let_def sorted_nest c_range_sorted enum_qI_sorted)

lemma enum_qS_sorted: "sorted_wrt (<) (enum_qS start g M pS)"
  by (simp add: enum_qS_def Let_def sorted_nest c_range_sorted enum_pI_sorted)

lemma enum_pS_sorted: "sorted_wrt (<) (enum_pS start g M)"
  by (simp add: enum_pS_def Let_def sorted_nest c_range_sorted enum_qS_sorted)

lemma enum_M_sorted: "sorted_wrt (<) (enum_M start g L)"
  by (simp add: enum_M_def Let_def sorted_nest c_range_sorted enum_pS_sorted)

lemma enum_K_sorted: "sorted_wrt (<) (enum_K start g L jK)"
  by (simp add: enum_K_def Let_def sorted_nest c_range_sorted enum_M_sorted)

lemma enum_jK_sorted: "sorted_wrt (<) (enum_jK start g L)"
  by (simp add: enum_jK_def Let_def sorted_nest c_range_sorted enum_K_sorted)

lemma basis_sorted: "sorted_wrt (<) (basis g)"
  by (simp add: basis_def sorted_nest c_range_sorted enum_jK_sorted)

lemma columns_sorted: "sorted_wrt (<) (columns g r)"
  by (simp add: columns_def sorted_nest c_range_sorted enum_jK_sorted)

lemma enum_qIb_resume_mem:
  assumes mem: "qI1b \<in> set (enum_qIb None g pI1b)"
  shows "qI1b \<in> set (enum_qIb (Some (L1, jK1, K1, M1, pS1, qS1, pI1, qI1, pI1b, qI1b)) g pI1b)"
  using assms by (auto simp add: enum_qIb_def Let_def c_range_self dest: c_range_bounds)

lemma enum_pIb_resume_mem:
  assumes mem: "(pI1b, qI1b) \<in> set (enum_pIb None g M1 pS1 pI1)"
  shows "(pI1b, qI1b) \<in> set (enum_pIb (Some (L1, jK1, K1, M1, pS1, qS1, pI1, qI1, pI1b, qI1b)) g M1 pS1 pI1)"
  using assms
  by (auto simp add: enum_pIb_def Let_def set_nest c_range_self enum_qIb_resume_mem
        dest: c_range_bounds split: if_splits)

lemma enum_qI_resume_mem:
  assumes mem: "(qI1, pI1b, qI1b) \<in> set (enum_qI None g M1 pS1 pI1)"
  shows "(qI1, pI1b, qI1b) \<in> set (enum_qI (Some (L1, jK1, K1, M1, pS1, qS1, pI1, qI1, pI1b, qI1b)) g M1 pS1 pI1)"
  using assms
  by (auto simp add: enum_qI_def Let_def set_nest c_range_self enum_pIb_resume_mem
        dest: c_range_bounds split: if_splits)

lemma enum_pI_resume_mem:
  assumes mem: "(pI1, qI1, pI1b, qI1b) \<in> set (enum_pI None g M1 pS1)"
  shows "(pI1, qI1, pI1b, qI1b) \<in> set (enum_pI (Some (L1, jK1, K1, M1, pS1, qS1, pI1, qI1, pI1b, qI1b)) g M1 pS1)"
  using assms
  by (auto simp add: enum_pI_def Let_def set_nest c_range_self enum_qI_resume_mem
        dest: c_range_bounds split: if_splits)

lemma enum_qS_resume_mem:
  assumes mem: "(qS1, pI1, qI1, pI1b, qI1b) \<in> set (enum_qS None g M1 pS1)"
  shows "(qS1, pI1, qI1, pI1b, qI1b) \<in> set (enum_qS (Some (L1, jK1, K1, M1, pS1, qS1, pI1, qI1, pI1b, qI1b)) g M1 pS1)"
  using assms
  by (auto simp add: enum_qS_def Let_def set_nest c_range_self enum_pI_resume_mem
        dest: c_range_bounds split: if_splits)

lemma enum_pS_resume_mem:
  assumes mem: "(pS1, qS1, pI1, qI1, pI1b, qI1b) \<in> set (enum_pS None g M1)"
  shows "(pS1, qS1, pI1, qI1, pI1b, qI1b) \<in> set (enum_pS (Some (L1, jK1, K1, M1, pS1, qS1, pI1, qI1, pI1b, qI1b)) g M1)"
  using assms
  by (auto simp add: enum_pS_def Let_def set_nest c_range_self enum_qS_resume_mem
        dest: c_range_bounds split: if_splits)

lemma enum_M_resume_mem:
  assumes mem: "(M1, pS1, qS1, pI1, qI1, pI1b, qI1b) \<in> set (enum_M None g L1)"
  shows "(M1, pS1, qS1, pI1, qI1, pI1b, qI1b) \<in> set (enum_M (Some (L1, jK1, K1, M1, pS1, qS1, pI1, qI1, pI1b, qI1b)) g L1)"
  using assms
  by (auto simp add: enum_M_def Let_def set_nest c_range_self enum_pS_resume_mem
        dest: c_range_bounds split: if_splits)

lemma enum_K_resume_mem:
  assumes mem: "(K1, M1, pS1, qS1, pI1, qI1, pI1b, qI1b) \<in> set (enum_K None g L1 jK1)" and pos: "0 < deltaK g"
  shows "(K1, M1, pS1, qS1, pI1, qI1, pI1b, qI1b) \<in> set (enum_K (Some (L1, jK1, K1, M1, pS1, qS1, pI1, qI1, pI1b, qI1b)) g L1 jK1)"
  using assms
  by (auto simp add: enum_K_def Let_def set_nest c_range_self enum_M_resume_mem
        dest: c_range_bounds split: if_splits)

lemma enum_jK_resume_mem:
  assumes mem: "(jK1, K1, M1, pS1, qS1, pI1, qI1, pI1b, qI1b) \<in> set (enum_jK None g L1)" and pos: "0 < deltaK g"
  shows "(jK1, K1, M1, pS1, qS1, pI1, qI1, pI1b, qI1b) \<in> set (enum_jK (Some (L1, jK1, K1, M1, pS1, qS1, pI1, qI1, pI1b, qI1b)) g L1)"
  using assms
  by (auto simp add: enum_jK_def Let_def set_nest c_range_self enum_K_resume_mem [OF _ pos]
        dest: c_range_bounds split: if_splits)

lemma enum_qIb_resume_subset:
  assumes mem: "qI1b \<in> set (enum_qIb None g pI1b)"
      and t: "t \<in> set (enum_qIb (Some (L1, jK1, K1, M1, pS1, qS1, pI1, qI1, pI1b, qI1b)) g pI1b)"
  shows "t \<in> set (enum_qIb None g pI1b) \<and> qI1b \<le> t"
proof -
  from mem have x0: "qI1b \<in> set (c_range (- (c_int (2 * Ib (Sys g)) - \<bar>pI1b\<bar>)) (c_int (2 * Ib (Sys g)) - \<bar>pI1b\<bar>) 2)"
    by (simp add: enum_qIb_def Let_def)
  from t have "t \<in> set (c_range qI1b (c_int (2 * Ib (Sys g)) - \<bar>pI1b\<bar>) 2)"
    by (simp add: enum_qIb_def Let_def)
  with c_range_resume [OF x0] c_range_bounds [of t qI1b] show ?thesis
    by (auto simp add: enum_qIb_def Let_def)
qed

lemma enum_pIb_resume_subset:
  assumes mem: "(pI1b, qI1b) \<in> set (enum_pIb None g M1 pS1 pI1)"
      and t: "t \<in> set (enum_pIb (Some (L1, jK1, K1, M1, pS1, qS1, pI1, qI1, pI1b, qI1b)) g M1 pS1 pI1)"
  shows "t \<in> set (enum_pIb None g M1 pS1 pI1) \<and> (pI1b, qI1b) \<le> t"
proof -
  obtain x t' where tx: "t = (x, t')" by (cases t)
  from mem have x0: "pI1b \<in> set (c_range (- pIbmax g) (pIbmax g) (1))" and nf: "\<not> (MeirovitchSymm g \<noteq> 0 \<and> DirTilt (Sys g) = 0 \<and> pI1 + pI1b + pS1 - M1 \<noteq> 1)"
    and mem': "qI1b \<in> set (enum_qIb None g pI1b)"
    by (auto simp add: enum_pIb_def Let_def set_nest split: if_splits)
  from t tx have x: "x \<in> set (c_range pI1b (pIbmax g) (1))"
    and t': "if x = pI1b then t' \<in> set (enum_qIb (Some (L1, jK1, K1, M1, pS1, qS1, pI1, qI1, pI1b, qI1b)) g pI1b)
             else \<not> (MeirovitchSymm g \<noteq> 0 \<and> DirTilt (Sys g) = 0 \<and> pI1 + x + pS1 - M1 \<noteq> 1) \<and> t' \<in> set (enum_qIb None g x)"
    by (auto simp add: enum_pIb_def Let_def set_nest split: if_splits)
  have xin: "x \<in> set (c_range (- pIbmax g) (pIbmax g) (1))"
    using c_range_resume [OF x0] x by blast
  have xge: "pI1b \<le> x"
    using c_range_bounds [OF x] by simp
  show ?thesis
  proof (cases "x = pI1b")
    case True
    with t' have "t' \<in> set (enum_qIb (Some (L1, jK1, K1, M1, pS1, qS1, pI1, qI1, pI1b, qI1b)) g pI1b)" by simp
    then have "t' \<in> set (enum_qIb None g pI1b) \<and> qI1b \<le> t'"
      by (rule enum_qIb_resume_subset [OF mem'])
    with True xin nf show ?thesis
      by (simp add: tx enum_pIb_def Let_def set_nest less_eq_prod_def)
  next
    case False
    with t' xin xge show ?thesis
      by (simp add: tx enum_pIb_def Let_def set_nest less_eq_prod_def)
  qed
qed

lemma enum_qI_resume_subset:
  assumes mem: "(qI1, pI1b, qI1b) \<in> set (enum_qI None g M1 pS1 pI1)"
      and t: "t \<in> set (enum_qI (Some (L1, jK1, K1, M1, pS1, qS1, pI1, qI1, pI1b, qI1b)) g M1 pS1 pI1)"
  shows "t \<in> set (enum_qI None g M1 pS1 pI1) \<and> (qI1, pI1b, qI1b) \<le> t"
proof -
  obtain x t' where tx: "t = (x, t')" by (cases t)
  from mem have x0: "qI1 \<in> set (c_range (- (c_int (2 * I (Sys g)) - \<bar>pI1\<bar>)) (c_int (2 * I (Sys g)) - \<bar>pI1\<bar>) (2))"
    and mem': "(pI1b, qI1b) \<in> set (enum_pIb None g M1 pS1 pI1)"
    by (auto simp add: enum_qI_def Let_def set_nest split: if_splits)
  from t tx have x: "x \<in> set (c_range qI1 (c_int (2 * I (Sys g)) - \<bar>pI1\<bar>) (2))"
    and t': "if x = qI1 then t' \<in> set (enum_pIb (Some (L1, jK1, K1, M1, pS1, qS1, pI1, qI1, pI1b, qI1b)) g M1 pS1 pI1)
             else t' \<in> set (enum_pIb None g M1 pS1 pI1)"
    by (auto simp add: enum_qI_def Let_def set_nest split: if_splits)
  have xin: "x \<in> set (c_range (- (c_int (2 * I (Sys g)) - \<bar>pI1\<bar>)) (c_int (2 * I (Sys g)) - \<bar>pI1\<bar>) (2))"
    using c_range_resume [OF x0] x by blast
  have xge: "qI1 \<le> x"
    using c_range_bounds [OF x] by simp
  show ?thesis
  proof (cases "x = qI1")
    case True
    with t' have "t' \<in> set (enum_pIb (Some (L1, jK1, K1, M1, pS1, qS1, pI1, qI1, pI1b, qI1b)) g M1 pS1 pI1)" by simp
    then have "t' \<in> set (enum_pIb None g M1 pS1 pI1) \<and> (pI1b, qI1b) \<le> t'"
      by (rule enum_pIb_resume_subset [OF mem'])
    with True xin  show ?thesis
      by (simp add: tx enum_qI_def Let_def set_nest less_eq_prod_def)
  next
    case False
    with t' xin xge show ?thesis
      by (simp add: tx enum_qI_def Let_def set_nest less_eq_prod_def)
  qed
qed

lemma enum_pI_resume_subset:
  assumes mem: "(pI1, qI1, pI1b, qI1b) \<in> set (enum_pI None g M1 pS1)"
      and t: "t \<in> set (enum_pI (Some (L1, jK1, K1, M1, pS1, qS1, pI1, qI1, pI1b, qI1b)) g M1 pS1)"
  shows "t \<in> set (enum_pI None g M1 pS1) \<and> (pI1, qI1, pI1b, qI1b) \<le> t"
proof -
  obtain x t' where tx: "t = (x, t')" by (cases t)
  from mem have x0: "pI1 \<in> set (c_range (- pImax g) (pImax g) (1))"
    and mem': "(qI1, pI1b, qI1b) \<in> set (enum_qI None g M1 pS1 pI1)"
    by (auto simp add: enum_pI_def Let_def set_nest split: if_splits)
  from t tx have x: "x \<in> set (c_range pI1 (pImax g) (1))"
    and t': "if x = pI1 then t' \<in> set (enum_qI (Some (L1, jK1, K1, M1, pS1, qS1, pI1, qI1, pI1b, qI1b)) g M1 pS1 pI1)
             else t' \<in> set (enum_qI None g M1 pS1 x)"
    by (auto simp add: enum_pI_def Let_def set_nest split: if_splits)
  have xin: "x \<in> set (c_range (- pImax g) (pImax g) (1))"
    using c_range_resume [OF x0] x by blast
  have xge: "pI1 \<le> x"
    using c_range_bounds [OF x] by simp
  show ?thesis
  proof (cases "x = pI1")
    case True
    with t' have "t' \<in> set (enum_qI (Some (L1, jK1, K1, M1, pS1, qS1, pI1, qI1, pI1b, qI1b)) g M1 pS1 pI1)" by simp
    then have "t' \<in> set (enum_qI None g M1 pS1 pI1) \<and> (qI1, pI1b, qI1b) \<le> t'"
      by (rule enum_qI_resume_subset [OF mem'])
    with True xin  show ?thesis
      by (simp add: tx enum_pI_def Let_def set_nest less_eq_prod_def)
  next
    case False
    with t' xin xge show ?thesis
      by (simp add: tx enum_pI_def Let_def set_nest less_eq_prod_def)
  qed
qed

lemma enum_qS_resume_subset:
  assumes mem: "(qS1, pI1, qI1, pI1b, qI1b) \<in> set (enum_qS None g M1 pS1)"
      and t: "t \<in> set (enum_qS (Some (L1, jK1, K1, M1, pS1, qS1, pI1, qI1, pI1b, qI1b)) g M1 pS1)"
  shows "t \<in> set (enum_qS None g M1 pS1) \<and> (qS1, pI1, qI1, pI1b, qI1b) \<le> t"
proof -
  obtain x t' where tx: "t = (x, t')" by (cases t)
  from mem have x0: "qS1 \<in> set (c_range (- (1 - \<bar>pS1\<bar>)) (1 - \<bar>pS1\<bar>) (2))"
    and mem': "(pI1, qI1, pI1b, qI1b) \<in> set (enum_pI None g M1 pS1)"
    by (auto simp add: enum_qS_def Let_def set_nest split: if_splits)
  from t tx have x: "x \<in> set (c_range qS1 (1 - \<bar>pS1\<bar>) (2))"
    and t': "if x = qS1 then t' \<in> set (enum_pI (Some (L1, jK1, K1, M1, pS1, qS1, pI1, qI1, pI1b, qI1b)) g M1 pS1)
             else t' \<in> set (enum_pI None g M1 pS1)"
    by (auto simp add: enum_qS_def Let_def set_nest split: if_splits)
  have xin: "x \<in> set (c_range (- (1 - \<bar>pS1\<bar>)) (1 - \<bar>pS1\<bar>) (2))"
    using c_range_resume [OF x0] x by blast
  have xge: "qS1 \<le> x"
    using c_range_bounds [OF x] by simp
  show ?thesis
  proof (cases "x = qS1")
    case True
    with t' have "t' \<in> set (enum_pI (Some (L1, jK1, K1, M1, pS1, qS1, pI1, qI1, pI1b, qI1b)) g M1 pS1)" by simp
    then have "t' \<in> set (enum_pI None g M1 pS1) \<and> (pI1, qI1, pI1b, qI1b) \<le> t'"
      by (rule enum_pI_resume_subset [OF mem'])
    with True xin  show ?thesis
      by (simp add: tx enum_qS_def Let_def set_nest less_eq_prod_def)
  next
    case False
    with t' xin xge show ?thesis
      by (simp add: tx enum_qS_def Let_def set_nest less_eq_prod_def)
  qed
qed

lemma enum_pS_resume_subset:
  assumes mem: "(pS1, qS1, pI1, qI1, pI1b, qI1b) \<in> set (enum_pS None g M1)"
      and t: "t \<in> set (enum_pS (Some (L1, jK1, K1, M1, pS1, qS1, pI1, qI1, pI1b, qI1b)) g M1)"
  shows "t \<in> set (enum_pS None g M1) \<and> (pS1, qS1, pI1, qI1, pI1b, qI1b) \<le> t"
proof -
  obtain x t' where tx: "t = (x, t')" by (cases t)
  from mem have x0: "pS1 \<in> set (c_range (pSmin g) (1) (1))"
    and mem': "(qS1, pI1, qI1, pI1b, qI1b) \<in> set (enum_qS None g M1 pS1)"
    by (auto simp add: enum_pS_def Let_def set_nest split: if_splits)
  from t tx have x: "x \<in> set (c_range pS1 (1) (1))"
    and t': "if x = pS1 then t' \<in> set (enum_qS (Some (L1, jK1, K1, M1, pS1, qS1, pI1, qI1, pI1b, qI1b)) g M1 pS1)
             else t' \<in> set (enum_qS None g M1 x)"
    by (auto simp add: enum_pS_def Let_def set_nest split: if_splits)
  have xin: "x \<in> set (c_range (pSmin g) (1) (1))"
    using c_range_resume [OF x0] x by blast
  have xge: "pS1 \<le> x"
    using c_range_bounds [OF x] by simp
  show ?thesis
  proof (cases "x = pS1")
    case True
    with t' have "t' \<in> set (enum_qS (Some (L1, jK1, K1, M1, pS1, qS1, pI1, qI1, pI1b, qI1b)) g M1 pS1)" by simp
    then have "t' \<in> set (enum_qS None g M1 pS1) \<and> (qS1, pI1, qI1, pI1b, qI1b) \<le> t'"
      by (rule enum_qS_resume_subset [OF mem'])
    with True xin  show ?thesis
      by (simp add: tx enum_pS_def Let_def set_nest less_eq_prod_def)
  next
    case False
    with t' xin xge show ?thesis
      by (simp add: tx enum_pS_def Let_def set_nest less_eq_prod_def)
  qed
qed

lemma enum_M_resume_subset:
  assumes mem: "(M1, pS1, qS1, pI1, qI1, pI1b, qI1b) \<in> set (enum_M None g L1)"
      and t: "t \<in> set (enum_M (Some (L1, jK1, K1, M1, pS1, qS1, pI1, qI1, pI1b, qI1b)) g L1)"
  shows "t \<in> set (enum_M None g L1) \<and> (M1, pS1, qS1, pI1, qI1, pI1b, qI1b) \<le> t"
proof -
  obtain x t' where tx: "t = (x, t')" by (cases t)
  from mem have x0: "M1 \<in> set (c_range (- mini (Mmax g) L1) (mini (Mmax g) L1) (1))"
    and mem': "(pS1, qS1, pI1, qI1, pI1b, qI1b) \<in> set (enum_pS None g M1)"
    by (auto simp add: enum_M_def Let_def set_nest split: if_splits)
  from t tx have x: "x \<in> set (c_range M1 (mini (Mmax g) L1) (1))"
    and t': "if x = M1 then t' \<in> set (enum_pS (Some (L1, jK1, K1, M1, pS1, qS1, pI1, qI1, pI1b, qI1b)) g M1)
             else t' \<in> set (enum_pS None g x)"
    by (auto simp add: enum_M_def Let_def set_nest split: if_splits)
  have xin: "x \<in> set (c_range (- mini (Mmax g) L1) (mini (Mmax g) L1) (1))"
    using c_range_resume [OF x0] x by blast
  have xge: "M1 \<le> x"
    using c_range_bounds [OF x] by simp
  show ?thesis
  proof (cases "x = M1")
    case True
    with t' have "t' \<in> set (enum_pS (Some (L1, jK1, K1, M1, pS1, qS1, pI1, qI1, pI1b, qI1b)) g M1)" by simp
    then have "t' \<in> set (enum_pS None g M1) \<and> (pS1, qS1, pI1, qI1, pI1b, qI1b) \<le> t'"
      by (rule enum_pS_resume_subset [OF mem'])
    with True xin  show ?thesis
      by (simp add: tx enum_M_def Let_def set_nest less_eq_prod_def)
  next
    case False
    with t' xin xge show ?thesis
      by (simp add: tx enum_M_def Let_def set_nest less_eq_prod_def)
  qed
qed

lemma enum_K_resume_subset:
  assumes mem: "(K1, M1, pS1, qS1, pI1, qI1, pI1b, qI1b) \<in> set (enum_K None g L1 jK1)"
      and t: "t \<in> set (enum_K (Some (L1, jK1, K1, M1, pS1, qS1, pI1, qI1, pI1b, qI1b)) g L1 jK1)"
  shows "t \<in> set (enum_K None g L1 jK1) \<and> (K1, M1, pS1, qS1, pI1, qI1, pI1b, qI1b) \<le> t"
proof -
  obtain x t' where tx: "t = (x, t')" by (cases t)
  from mem have x0: "K1 \<in> set (c_range 0 (mini (Kmax g) L1) (deltaK g))" and nf: "\<not> (K1 = 0 \<and> parity L1 \<noteq> jK1)"
    and mem': "(M1, pS1, qS1, pI1, qI1, pI1b, qI1b) \<in> set (enum_M None g L1)"
    by (auto simp add: enum_K_def Let_def set_nest split: if_splits)
  from t tx have x: "x \<in> set (c_range K1 (mini (Kmax g) L1) (deltaK g))"
    and t': "if x = K1 then t' \<in> set (enum_M (Some (L1, jK1, K1, M1, pS1, qS1, pI1, qI1, pI1b, qI1b)) g L1)
             else \<not> (x = 0 \<and> parity L1 \<noteq> jK1) \<and> t' \<in> set (enum_M None g L1)"
    by (auto simp add: enum_K_def Let_def set_nest split: if_splits)
  have xin: "x \<in> set (c_range 0 (mini (Kmax g) L1) (deltaK g))"
    using c_range_resume [OF x0] x by blast
  have xge: "K1 \<le> x"
    using c_range_bounds [OF x] by simp
  show ?thesis
  proof (cases "x = K1")
    case True
    with t' have "t' \<in> set (enum_M (Some (L1, jK1, K1, M1, pS1, qS1, pI1, qI1, pI1b, qI1b)) g L1)" by simp
    then have "t' \<in> set (enum_M None g L1) \<and> (M1, pS1, qS1, pI1, qI1, pI1b, qI1b) \<le> t'"
      by (rule enum_M_resume_subset [OF mem'])
    with True xin nf show ?thesis
      by (simp add: tx enum_K_def Let_def set_nest less_eq_prod_def)
  next
    case False
    with t' xin xge show ?thesis
      by (simp add: tx enum_K_def Let_def set_nest less_eq_prod_def)
  qed
qed

lemma enum_jK_resume_subset:
  assumes mem: "(jK1, K1, M1, pS1, qS1, pI1, qI1, pI1b, qI1b) \<in> set (enum_jK None g L1)"
      and t: "t \<in> set (enum_jK (Some (L1, jK1, K1, M1, pS1, qS1, pI1, qI1, pI1b, qI1b)) g L1)"
  shows "t \<in> set (enum_jK None g L1) \<and> (jK1, K1, M1, pS1, qS1, pI1, qI1, pI1b, qI1b) \<le> t"
proof -
  obtain x t' where tx: "t = (x, t')" by (cases t)
  from mem have x0: "jK1 \<in> set (c_range (jKmin g) (1) (2))"
    and mem': "(K1, M1, pS1, qS1, pI1, qI1, pI1b, qI1b) \<in> set (enum_K None g L1 jK1)"
    by (auto simp add: enum_jK_def Let_def set_nest split: if_splits)
  from t tx have x: "x \<in> set (c_range jK1 (1) (2))"
    and t': "if x = jK1 then t' \<in> set (enum_K (Some (L1, jK1, K1, M1, pS1, qS1, pI1, qI1, pI1b, qI1b)) g L1 jK1)
             else t' \<in> set (enum_K None g L1 x)"
    by (auto simp add: enum_jK_def Let_def set_nest split: if_splits)
  have xin: "x \<in> set (c_range (jKmin g) (1) (2))"
    using c_range_resume [OF x0] x by blast
  have xge: "jK1 \<le> x"
    using c_range_bounds [OF x] by simp
  show ?thesis
  proof (cases "x = jK1")
    case True
    with t' have "t' \<in> set (enum_K (Some (L1, jK1, K1, M1, pS1, qS1, pI1, qI1, pI1b, qI1b)) g L1 jK1)" by simp
    then have "t' \<in> set (enum_K None g L1 jK1) \<and> (K1, M1, pS1, qS1, pI1, qI1, pI1b, qI1b) \<le> t'"
      by (rule enum_K_resume_subset [OF mem'])
    with True xin  show ?thesis
      by (simp add: tx enum_jK_def Let_def set_nest less_eq_prod_def)
  next
    case False
    with t' xin xge show ?thesis
      by (simp add: tx enum_jK_def Let_def set_nest less_eq_prod_def)
  qed
qed
subsection \<open>The column loops of makematrix run the enumerator\<close>

text \<open>
  With \<^verbatim>\<open>diagRC\<close> off, a column loop enumerates from the beginning; with \<^verbatim>\<open>diagRC\<close> on
  and the outer column variables equal to those of the row, it resumes at the row.
\<close>

lemma makematrix_qI2b_from_start:
  assumes off: "\<not> diagRC s"
  shows "makematrix_qI2b jjj g r L2 jK2 K2 M2 pS2 qS2 pI2 qI2 pI2b s =
         for_list (\<lambda>t. column_body jjj g r (L2, jK2, K2, M2, pS2, qS2, pI2, qI2, pI2b, t))
           (enum_qIb None g pI2b) s"
proof -
  obtain L1 jK1 K1 M1 pS1 qS1 pI1 qI1 pI1b qI1b
    where r: "r = (L1, jK1, K1, M1, pS1, qS1, pI1, qI1, pI1b, qI1b)"
    by (cases r) auto
  show ?thesis
    using off by (simp add: r makematrix_qI2b.simps enum_qIb_def Let_def for_loop_pos)
qed

lemma makematrix_pI2b_from_start:
  assumes off: "\<not> diagRC s"
  shows "makematrix_pI2b jjj g r L2 jK2 K2 M2 pS2 qS2 pI2 qI2 s =
         for_list (\<lambda>t. column_body jjj g r (L2, jK2, K2, M2, pS2, qS2, pI2, qI2, t))
           (enum_pIb None g M2 pS2 pI2) s"
proof -
  obtain L1 jK1 K1 M1 pS1 qS1 pI1 qI1 pI1b qI1b
    where r: "r = (L1, jK1, K1, M1, pS1, qS1, pI1, qI1, pI1b, qI1b)"
    by (cases r) auto
  show ?thesis
    unfolding r makematrix_pI2b.simps enum_pIb_def Let_def start_at_simps resume_simps
    apply (subst if_not_P [OF off])
    apply (rule for_loop_nest_flag_off [where flag = diagRC])
       apply (simp)
      apply (rule off)
     apply (simp add: makematrix_qI2b_from_start [unfolded r])
    apply (erule column_body_clears_diagRC)
    done
qed

lemma makematrix_qI2_from_start:
  assumes off: "\<not> diagRC s"
  shows "makematrix_qI2 jjj g r L2 jK2 K2 M2 pS2 qS2 pI2 s =
         for_list (\<lambda>t. column_body jjj g r (L2, jK2, K2, M2, pS2, qS2, pI2, t))
           (enum_qI None g M2 pS2 pI2) s"
proof -
  obtain L1 jK1 K1 M1 pS1 qS1 pI1 qI1 pI1b qI1b
    where r: "r = (L1, jK1, K1, M1, pS1, qS1, pI1, qI1, pI1b, qI1b)"
    by (cases r) auto
  show ?thesis
    unfolding r makematrix_qI2.simps enum_qI_def Let_def start_at_simps resume_simps
    apply (subst if_not_P [OF off])
    apply (rule for_loop_nest_flag_off [where flag = diagRC])
       apply (simp)
      apply (rule off)
     apply (simp add: makematrix_pI2b_from_start [unfolded r])
    apply (erule column_body_clears_diagRC)
    done
qed

lemma makematrix_pI2_from_start:
  assumes off: "\<not> diagRC s"
  shows "makematrix_pI2 jjj g r L2 jK2 K2 M2 pS2 qS2 s =
         for_list (\<lambda>t. column_body jjj g r (L2, jK2, K2, M2, pS2, qS2, t))
           (enum_pI None g M2 pS2) s"
proof -
  obtain L1 jK1 K1 M1 pS1 qS1 pI1 qI1 pI1b qI1b
    where r: "r = (L1, jK1, K1, M1, pS1, qS1, pI1, qI1, pI1b, qI1b)"
    by (cases r) auto
  show ?thesis
    unfolding r makematrix_pI2.simps enum_pI_def Let_def start_at_simps resume_simps
    apply (subst if_not_P [OF off])
    apply (rule for_loop_nest_flag_off [where flag = diagRC])
       apply (simp)
      apply (rule off)
     apply (simp add: makematrix_qI2_from_start [unfolded r])
    apply (erule column_body_clears_diagRC)
    done
qed

lemma makematrix_qS2_from_start:
  assumes off: "\<not> diagRC s"
  shows "makematrix_qS2 jjj g r L2 jK2 K2 M2 pS2 s =
         for_list (\<lambda>t. column_body jjj g r (L2, jK2, K2, M2, pS2, t))
           (enum_qS None g M2 pS2) s"
proof -
  obtain L1 jK1 K1 M1 pS1 qS1 pI1 qI1 pI1b qI1b
    where r: "r = (L1, jK1, K1, M1, pS1, qS1, pI1, qI1, pI1b, qI1b)"
    by (cases r) auto
  show ?thesis
    unfolding r makematrix_qS2.simps enum_qS_def Let_def start_at_simps resume_simps
    apply (subst if_not_P [OF off])
    apply (rule for_loop_nest_flag_off [where flag = diagRC])
       apply (simp)
      apply (rule off)
     apply (simp add: makematrix_pI2_from_start [unfolded r])
    apply (erule column_body_clears_diagRC)
    done
qed

lemma makematrix_pS2_from_start:
  assumes off: "\<not> diagRC s"
  shows "makematrix_pS2 jjj g r L2 jK2 K2 M2 s =
         for_list (\<lambda>t. column_body jjj g r (L2, jK2, K2, M2, t))
           (enum_pS None g M2) s"
proof -
  obtain L1 jK1 K1 M1 pS1 qS1 pI1 qI1 pI1b qI1b
    where r: "r = (L1, jK1, K1, M1, pS1, qS1, pI1, qI1, pI1b, qI1b)"
    by (cases r) auto
  show ?thesis
    unfolding r makematrix_pS2.simps enum_pS_def Let_def start_at_simps resume_simps
    apply (subst if_not_P [OF off])
    apply (rule for_loop_nest_flag_off [where flag = diagRC])
       apply (simp)
      apply (rule off)
     apply (simp add: makematrix_qS2_from_start [unfolded r])
    apply (erule column_body_clears_diagRC)
    done
qed

lemma makematrix_M2_from_start:
  assumes off: "\<not> diagRC s"
  shows "makematrix_M2 jjj g r L2 jK2 K2 s =
         for_list (\<lambda>t. column_body jjj g r (L2, jK2, K2, t))
           (enum_M None g L2) s"
proof -
  obtain L1 jK1 K1 M1 pS1 qS1 pI1 qI1 pI1b qI1b
    where r: "r = (L1, jK1, K1, M1, pS1, qS1, pI1, qI1, pI1b, qI1b)"
    by (cases r) auto
  show ?thesis
    unfolding r makematrix_M2.simps enum_M_def Let_def start_at_simps resume_simps
    apply (subst if_not_P [OF off])
    apply (rule for_loop_nest_flag_off [where flag = diagRC])
       apply (simp)
      apply (rule off)
     apply (simp add: makematrix_pS2_from_start [unfolded r])
    apply (erule column_body_clears_diagRC)
    done
qed

lemma makematrix_K2_from_start:
  assumes off: "\<not> diagRC s"
      and pos: "0 < deltaK g"
  shows "makematrix_K2 jjj g r L2 jK2 s =
         for_list (\<lambda>t. column_body jjj g r (L2, jK2, t))
           (enum_K None g L2 jK2) s"
proof -
  obtain L1 jK1 K1 M1 pS1 qS1 pI1 qI1 pI1b qI1b
    where r: "r = (L1, jK1, K1, M1, pS1, qS1, pI1, qI1, pI1b, qI1b)"
    by (cases r) auto
  show ?thesis
    unfolding r makematrix_K2.simps enum_K_def Let_def start_at_simps resume_simps
    apply (subst if_not_P [OF off])
    apply (rule for_loop_nest_flag_off [where flag = diagRC])
       apply (rule pos)
      apply (rule off)
     apply (simp add: makematrix_M2_from_start [unfolded r])
    apply (erule column_body_clears_diagRC)
    done
qed

lemma makematrix_jK2_from_start:
  assumes off: "\<not> diagRC s"
      and pos: "0 < deltaK g"
  shows "makematrix_jK2 jjj g r L2 s =
         for_list (\<lambda>t. column_body jjj g r (L2, t))
           (enum_jK None g L2) s"
proof -
  obtain L1 jK1 K1 M1 pS1 qS1 pI1 qI1 pI1b qI1b
    where r: "r = (L1, jK1, K1, M1, pS1, qS1, pI1, qI1, pI1b, qI1b)"
    by (cases r) auto
  show ?thesis
    unfolding r makematrix_jK2.simps enum_jK_def Let_def start_at_simps resume_simps
    apply (subst if_not_P [OF off])
    apply (rule for_loop_nest_flag_off [where flag = diagRC])
       apply (simp)
      apply (rule off)
     apply (simp add: makematrix_K2_from_start [OF _ pos, unfolded r])
    apply (erule column_body_clears_diagRC)
    done
qed

lemma makematrix_qI2b_resumed:
  assumes on: "diagRC s"
      and mem: "qI1b \<in> set (enum_qIb None g pI1b)"
  shows "makematrix_qI2b jjj g (L1, jK1, K1, M1, pS1, qS1, pI1, qI1, pI1b, qI1b) L1 jK1 K1 M1 pS1 qS1 pI1 qI1 pI1b s =
         for_list (\<lambda>t. column_body jjj g (L1, jK1, K1, M1, pS1, qS1, pI1, qI1, pI1b, qI1b) (L1, jK1, K1, M1, pS1, qS1, pI1, qI1, pI1b, t))
           (enum_qIb (Some (L1, jK1, K1, M1, pS1, qS1, pI1, qI1, pI1b, qI1b)) g pI1b) s"
  using on by (simp add: makematrix_qI2b.simps enum_qIb_def Let_def for_loop_pos)

lemma makematrix_pI2b_resumed:
  assumes on: "diagRC s"
      and mem: "(pI1b, qI1b) \<in> set (enum_pIb None g M1 pS1 pI1)"
  shows "makematrix_pI2b jjj g (L1, jK1, K1, M1, pS1, qS1, pI1, qI1, pI1b, qI1b) L1 jK1 K1 M1 pS1 qS1 pI1 qI1 s =
         for_list (\<lambda>t. column_body jjj g (L1, jK1, K1, M1, pS1, qS1, pI1, qI1, pI1b, qI1b) (L1, jK1, K1, M1, pS1, qS1, pI1, qI1, t))
           (enum_pIb (Some (L1, jK1, K1, M1, pS1, qS1, pI1, qI1, pI1b, qI1b)) g M1 pS1 pI1) s"
proof -
  from mem have x0: "pI1b \<in> set (c_range (- pIbmax g) (pIbmax g) (1))" and nf: "\<not> (MeirovitchSymm g \<noteq> 0 \<and> DirTilt (Sys g) = 0 \<and> pI1 + pI1b + pS1 - M1 \<noteq> 1)"
    and mem': "qI1b \<in> set (enum_qIb None g pI1b)"
    by (auto simp add: enum_pIb_def Let_def set_nest split: if_splits)
  have le: "pI1b \<le> pIbmax g"
    using c_range_bounds [OF x0] by simp
  have "qI1b \<in> set (enum_qIb (Some (L1, jK1, K1, M1, pS1, qS1, pI1, qI1, pI1b, qI1b)) g pI1b)"
    by (rule enum_qIb_resume_mem [OF mem'])
  then have ne: "enum_qIb (Some (L1, jK1, K1, M1, pS1, qS1, pI1, qI1, pI1b, qI1b)) g pI1b \<noteq> []"
    by auto
  have inner: "(\<lambda>x. if MeirovitchSymm g \<noteq> 0 \<and> DirTilt (Sys g) = 0 \<and> pI1 + x + pS1 - M1 \<noteq> 1 then [] else enum_qIb (if x = pI1b then Some (L1, jK1, K1, M1, pS1, qS1, pI1, qI1, pI1b, qI1b) else None) g x) =
      (\<lambda>x. if x = pI1b then enum_qIb (Some (L1, jK1, K1, M1, pS1, qS1, pI1, qI1, pI1b, qI1b)) g pI1b
           else if MeirovitchSymm g \<noteq> 0 \<and> DirTilt (Sys g) = 0 \<and> pI1 + x + pS1 - M1 \<noteq> 1 then [] else enum_qIb None g x)"
    using nf by (auto simp add: fun_eq_iff)
  show ?thesis
    unfolding makematrix_pI2b.simps enum_pIb_def Let_def start_at_simps resume_simps qn_simps
    apply (subst if_P [OF on])
    apply (subst inner)
    apply (rule for_loop_nest_flag_on [where flag = diagRC])
          apply (simp)
         apply (rule on)
        apply (rule le)
       apply (simp add: makematrix_qI2b_resumed [OF _ mem'] nf)
      apply (rule ne)
     apply (simp add: makematrix_qI2b_from_start)
    apply (erule column_body_clears_diagRC)
    done
qed

lemma makematrix_qI2_resumed:
  assumes on: "diagRC s"
      and mem: "(qI1, pI1b, qI1b) \<in> set (enum_qI None g M1 pS1 pI1)"
  shows "makematrix_qI2 jjj g (L1, jK1, K1, M1, pS1, qS1, pI1, qI1, pI1b, qI1b) L1 jK1 K1 M1 pS1 qS1 pI1 s =
         for_list (\<lambda>t. column_body jjj g (L1, jK1, K1, M1, pS1, qS1, pI1, qI1, pI1b, qI1b) (L1, jK1, K1, M1, pS1, qS1, pI1, t))
           (enum_qI (Some (L1, jK1, K1, M1, pS1, qS1, pI1, qI1, pI1b, qI1b)) g M1 pS1 pI1) s"
proof -
  from mem have x0: "qI1 \<in> set (c_range (- (c_int (2 * I (Sys g)) - \<bar>pI1\<bar>)) (c_int (2 * I (Sys g)) - \<bar>pI1\<bar>) (2))"
    and mem': "(pI1b, qI1b) \<in> set (enum_pIb None g M1 pS1 pI1)"
    by (auto simp add: enum_qI_def Let_def set_nest split: if_splits)
  have le: "qI1 \<le> c_int (2 * I (Sys g)) - \<bar>pI1\<bar>"
    using c_range_bounds [OF x0] by simp
  have "(pI1b, qI1b) \<in> set (enum_pIb (Some (L1, jK1, K1, M1, pS1, qS1, pI1, qI1, pI1b, qI1b)) g M1 pS1 pI1)"
    by (rule enum_pIb_resume_mem [OF mem'])
  then have ne: "enum_pIb (Some (L1, jK1, K1, M1, pS1, qS1, pI1, qI1, pI1b, qI1b)) g M1 pS1 pI1 \<noteq> []"
    by auto
  have inner: "(\<lambda>x. enum_pIb (if x = qI1 then Some (L1, jK1, K1, M1, pS1, qS1, pI1, qI1, pI1b, qI1b) else None) g M1 pS1 pI1) =
      (\<lambda>x. if x = qI1 then enum_pIb (Some (L1, jK1, K1, M1, pS1, qS1, pI1, qI1, pI1b, qI1b)) g M1 pS1 pI1
           else enum_pIb None g M1 pS1 pI1)"
    by (auto simp add: fun_eq_iff)
  show ?thesis
    unfolding makematrix_qI2.simps enum_qI_def Let_def start_at_simps resume_simps qn_simps
    apply (subst if_P [OF on])
    apply (subst inner)
    apply (rule for_loop_nest_flag_on [where flag = diagRC])
          apply (simp)
         apply (rule on)
        apply (rule le)
       apply (simp add: makematrix_pI2b_resumed [OF _ mem'])
      apply (rule ne)
     apply (simp add: makematrix_pI2b_from_start)
    apply (erule column_body_clears_diagRC)
    done
qed

lemma makematrix_pI2_resumed:
  assumes on: "diagRC s"
      and mem: "(pI1, qI1, pI1b, qI1b) \<in> set (enum_pI None g M1 pS1)"
  shows "makematrix_pI2 jjj g (L1, jK1, K1, M1, pS1, qS1, pI1, qI1, pI1b, qI1b) L1 jK1 K1 M1 pS1 qS1 s =
         for_list (\<lambda>t. column_body jjj g (L1, jK1, K1, M1, pS1, qS1, pI1, qI1, pI1b, qI1b) (L1, jK1, K1, M1, pS1, qS1, t))
           (enum_pI (Some (L1, jK1, K1, M1, pS1, qS1, pI1, qI1, pI1b, qI1b)) g M1 pS1) s"
proof -
  from mem have x0: "pI1 \<in> set (c_range (- pImax g) (pImax g) (1))"
    and mem': "(qI1, pI1b, qI1b) \<in> set (enum_qI None g M1 pS1 pI1)"
    by (auto simp add: enum_pI_def Let_def set_nest split: if_splits)
  have le: "pI1 \<le> pImax g"
    using c_range_bounds [OF x0] by simp
  have "(qI1, pI1b, qI1b) \<in> set (enum_qI (Some (L1, jK1, K1, M1, pS1, qS1, pI1, qI1, pI1b, qI1b)) g M1 pS1 pI1)"
    by (rule enum_qI_resume_mem [OF mem'])
  then have ne: "enum_qI (Some (L1, jK1, K1, M1, pS1, qS1, pI1, qI1, pI1b, qI1b)) g M1 pS1 pI1 \<noteq> []"
    by auto
  have inner: "(\<lambda>x. enum_qI (if x = pI1 then Some (L1, jK1, K1, M1, pS1, qS1, pI1, qI1, pI1b, qI1b) else None) g M1 pS1 x) =
      (\<lambda>x. if x = pI1 then enum_qI (Some (L1, jK1, K1, M1, pS1, qS1, pI1, qI1, pI1b, qI1b)) g M1 pS1 pI1
           else enum_qI None g M1 pS1 x)"
    by (auto simp add: fun_eq_iff)
  show ?thesis
    unfolding makematrix_pI2.simps enum_pI_def Let_def start_at_simps resume_simps qn_simps
    apply (subst if_P [OF on])
    apply (subst inner)
    apply (rule for_loop_nest_flag_on [where flag = diagRC])
          apply (simp)
         apply (rule on)
        apply (rule le)
       apply (simp add: makematrix_qI2_resumed [OF _ mem'])
      apply (rule ne)
     apply (simp add: makematrix_qI2_from_start)
    apply (erule column_body_clears_diagRC)
    done
qed

lemma makematrix_qS2_resumed:
  assumes on: "diagRC s"
      and mem: "(qS1, pI1, qI1, pI1b, qI1b) \<in> set (enum_qS None g M1 pS1)"
  shows "makematrix_qS2 jjj g (L1, jK1, K1, M1, pS1, qS1, pI1, qI1, pI1b, qI1b) L1 jK1 K1 M1 pS1 s =
         for_list (\<lambda>t. column_body jjj g (L1, jK1, K1, M1, pS1, qS1, pI1, qI1, pI1b, qI1b) (L1, jK1, K1, M1, pS1, t))
           (enum_qS (Some (L1, jK1, K1, M1, pS1, qS1, pI1, qI1, pI1b, qI1b)) g M1 pS1) s"
proof -
  from mem have x0: "qS1 \<in> set (c_range (- (1 - \<bar>pS1\<bar>)) (1 - \<bar>pS1\<bar>) (2))"
    and mem': "(pI1, qI1, pI1b, qI1b) \<in> set (enum_pI None g M1 pS1)"
    by (auto simp add: enum_qS_def Let_def set_nest split: if_splits)
  have le: "qS1 \<le> 1 - \<bar>pS1\<bar>"
    using c_range_bounds [OF x0] by simp
  have "(pI1, qI1, pI1b, qI1b) \<in> set (enum_pI (Some (L1, jK1, K1, M1, pS1, qS1, pI1, qI1, pI1b, qI1b)) g M1 pS1)"
    by (rule enum_pI_resume_mem [OF mem'])
  then have ne: "enum_pI (Some (L1, jK1, K1, M1, pS1, qS1, pI1, qI1, pI1b, qI1b)) g M1 pS1 \<noteq> []"
    by auto
  have inner: "(\<lambda>x. enum_pI (if x = qS1 then Some (L1, jK1, K1, M1, pS1, qS1, pI1, qI1, pI1b, qI1b) else None) g M1 pS1) =
      (\<lambda>x. if x = qS1 then enum_pI (Some (L1, jK1, K1, M1, pS1, qS1, pI1, qI1, pI1b, qI1b)) g M1 pS1
           else enum_pI None g M1 pS1)"
    by (auto simp add: fun_eq_iff)
  show ?thesis
    unfolding makematrix_qS2.simps enum_qS_def Let_def start_at_simps resume_simps qn_simps
    apply (subst if_P [OF on])
    apply (subst inner)
    apply (rule for_loop_nest_flag_on [where flag = diagRC])
          apply (simp)
         apply (rule on)
        apply (rule le)
       apply (simp add: makematrix_pI2_resumed [OF _ mem'])
      apply (rule ne)
     apply (simp add: makematrix_pI2_from_start)
    apply (erule column_body_clears_diagRC)
    done
qed

lemma makematrix_pS2_resumed:
  assumes on: "diagRC s"
      and mem: "(pS1, qS1, pI1, qI1, pI1b, qI1b) \<in> set (enum_pS None g M1)"
  shows "makematrix_pS2 jjj g (L1, jK1, K1, M1, pS1, qS1, pI1, qI1, pI1b, qI1b) L1 jK1 K1 M1 s =
         for_list (\<lambda>t. column_body jjj g (L1, jK1, K1, M1, pS1, qS1, pI1, qI1, pI1b, qI1b) (L1, jK1, K1, M1, t))
           (enum_pS (Some (L1, jK1, K1, M1, pS1, qS1, pI1, qI1, pI1b, qI1b)) g M1) s"
proof -
  from mem have x0: "pS1 \<in> set (c_range (pSmin g) (1) (1))"
    and mem': "(qS1, pI1, qI1, pI1b, qI1b) \<in> set (enum_qS None g M1 pS1)"
    by (auto simp add: enum_pS_def Let_def set_nest split: if_splits)
  have le: "pS1 \<le> 1"
    using c_range_bounds [OF x0] by simp
  have "(qS1, pI1, qI1, pI1b, qI1b) \<in> set (enum_qS (Some (L1, jK1, K1, M1, pS1, qS1, pI1, qI1, pI1b, qI1b)) g M1 pS1)"
    by (rule enum_qS_resume_mem [OF mem'])
  then have ne: "enum_qS (Some (L1, jK1, K1, M1, pS1, qS1, pI1, qI1, pI1b, qI1b)) g M1 pS1 \<noteq> []"
    by auto
  have inner: "(\<lambda>x. enum_qS (if x = pS1 then Some (L1, jK1, K1, M1, pS1, qS1, pI1, qI1, pI1b, qI1b) else None) g M1 x) =
      (\<lambda>x. if x = pS1 then enum_qS (Some (L1, jK1, K1, M1, pS1, qS1, pI1, qI1, pI1b, qI1b)) g M1 pS1
           else enum_qS None g M1 x)"
    by (auto simp add: fun_eq_iff)
  show ?thesis
    unfolding makematrix_pS2.simps enum_pS_def Let_def start_at_simps resume_simps qn_simps
    apply (subst if_P [OF on])
    apply (subst inner)
    apply (rule for_loop_nest_flag_on [where flag = diagRC])
          apply (simp)
         apply (rule on)
        apply (rule le)
       apply (simp add: makematrix_qS2_resumed [OF _ mem'])
      apply (rule ne)
     apply (simp add: makematrix_qS2_from_start)
    apply (erule column_body_clears_diagRC)
    done
qed

lemma makematrix_M2_resumed:
  assumes on: "diagRC s"
      and mem: "(M1, pS1, qS1, pI1, qI1, pI1b, qI1b) \<in> set (enum_M None g L1)"
  shows "makematrix_M2 jjj g (L1, jK1, K1, M1, pS1, qS1, pI1, qI1, pI1b, qI1b) L1 jK1 K1 s =
         for_list (\<lambda>t. column_body jjj g (L1, jK1, K1, M1, pS1, qS1, pI1, qI1, pI1b, qI1b) (L1, jK1, K1, t))
           (enum_M (Some (L1, jK1, K1, M1, pS1, qS1, pI1, qI1, pI1b, qI1b)) g L1) s"
proof -
  from mem have x0: "M1 \<in> set (c_range (- mini (Mmax g) L1) (mini (Mmax g) L1) (1))"
    and mem': "(pS1, qS1, pI1, qI1, pI1b, qI1b) \<in> set (enum_pS None g M1)"
    by (auto simp add: enum_M_def Let_def set_nest split: if_splits)
  have le: "M1 \<le> mini (Mmax g) L1"
    using c_range_bounds [OF x0] by simp
  have "(pS1, qS1, pI1, qI1, pI1b, qI1b) \<in> set (enum_pS (Some (L1, jK1, K1, M1, pS1, qS1, pI1, qI1, pI1b, qI1b)) g M1)"
    by (rule enum_pS_resume_mem [OF mem'])
  then have ne: "enum_pS (Some (L1, jK1, K1, M1, pS1, qS1, pI1, qI1, pI1b, qI1b)) g M1 \<noteq> []"
    by auto
  have inner: "(\<lambda>x. enum_pS (if x = M1 then Some (L1, jK1, K1, M1, pS1, qS1, pI1, qI1, pI1b, qI1b) else None) g x) =
      (\<lambda>x. if x = M1 then enum_pS (Some (L1, jK1, K1, M1, pS1, qS1, pI1, qI1, pI1b, qI1b)) g M1
           else enum_pS None g x)"
    by (auto simp add: fun_eq_iff)
  show ?thesis
    unfolding makematrix_M2.simps enum_M_def Let_def start_at_simps resume_simps qn_simps
    apply (subst if_P [OF on])
    apply (subst inner)
    apply (rule for_loop_nest_flag_on [where flag = diagRC])
          apply (simp)
         apply (rule on)
        apply (rule le)
       apply (simp add: makematrix_pS2_resumed [OF _ mem'])
      apply (rule ne)
     apply (simp add: makematrix_pS2_from_start)
    apply (erule column_body_clears_diagRC)
    done
qed

lemma makematrix_K2_resumed:
  assumes on: "diagRC s"
      and mem: "(K1, M1, pS1, qS1, pI1, qI1, pI1b, qI1b) \<in> set (enum_K None g L1 jK1)"
      and pos: "0 < deltaK g"
  shows "makematrix_K2 jjj g (L1, jK1, K1, M1, pS1, qS1, pI1, qI1, pI1b, qI1b) L1 jK1 s =
         for_list (\<lambda>t. column_body jjj g (L1, jK1, K1, M1, pS1, qS1, pI1, qI1, pI1b, qI1b) (L1, jK1, t))
           (enum_K (Some (L1, jK1, K1, M1, pS1, qS1, pI1, qI1, pI1b, qI1b)) g L1 jK1) s"
proof -
  from mem have x0: "K1 \<in> set (c_range 0 (mini (Kmax g) L1) (deltaK g))" and nf: "\<not> (K1 = 0 \<and> parity L1 \<noteq> jK1)"
    and mem': "(M1, pS1, qS1, pI1, qI1, pI1b, qI1b) \<in> set (enum_M None g L1)"
    by (auto simp add: enum_K_def Let_def set_nest split: if_splits)
  have le: "K1 \<le> mini (Kmax g) L1"
    using c_range_bounds [OF x0] by simp
  have "(M1, pS1, qS1, pI1, qI1, pI1b, qI1b) \<in> set (enum_M (Some (L1, jK1, K1, M1, pS1, qS1, pI1, qI1, pI1b, qI1b)) g L1)"
    by (rule enum_M_resume_mem [OF mem'])
  then have ne: "enum_M (Some (L1, jK1, K1, M1, pS1, qS1, pI1, qI1, pI1b, qI1b)) g L1 \<noteq> []"
    by auto
  have inner: "(\<lambda>x. if x = 0 \<and> parity L1 \<noteq> jK1 then [] else enum_M (if x = K1 then Some (L1, jK1, K1, M1, pS1, qS1, pI1, qI1, pI1b, qI1b) else None) g L1) =
      (\<lambda>x. if x = K1 then enum_M (Some (L1, jK1, K1, M1, pS1, qS1, pI1, qI1, pI1b, qI1b)) g L1
           else if x = 0 \<and> parity L1 \<noteq> jK1 then [] else enum_M None g L1)"
    using nf by (auto simp add: fun_eq_iff)
  show ?thesis
    unfolding makematrix_K2.simps enum_K_def Let_def start_at_simps resume_simps qn_simps
    apply (subst if_P [OF on])
    apply (subst inner)
    apply (rule for_loop_nest_flag_on [where flag = diagRC])
          apply (rule pos)
         apply (rule on)
        apply (rule le)
       apply (simp add: makematrix_M2_resumed [OF _ mem'] nf)
      apply (rule ne)
     apply (simp add: makematrix_M2_from_start)
    apply (erule column_body_clears_diagRC)
    done
qed

lemma makematrix_jK2_resumed:
  assumes on: "diagRC s"
      and mem: "(jK1, K1, M1, pS1, qS1, pI1, qI1, pI1b, qI1b) \<in> set (enum_jK None g L1)"
      and pos: "0 < deltaK g"
  shows "makematrix_jK2 jjj g (L1, jK1, K1, M1, pS1, qS1, pI1, qI1, pI1b, qI1b) L1 s =
         for_list (\<lambda>t. column_body jjj g (L1, jK1, K1, M1, pS1, qS1, pI1, qI1, pI1b, qI1b) (L1, t))
           (enum_jK (Some (L1, jK1, K1, M1, pS1, qS1, pI1, qI1, pI1b, qI1b)) g L1) s"
proof -
  from mem have x0: "jK1 \<in> set (c_range (jKmin g) (1) (2))"
    and mem': "(K1, M1, pS1, qS1, pI1, qI1, pI1b, qI1b) \<in> set (enum_K None g L1 jK1)"
    by (auto simp add: enum_jK_def Let_def set_nest split: if_splits)
  have le: "jK1 \<le> 1"
    using c_range_bounds [OF x0] by simp
  have "(K1, M1, pS1, qS1, pI1, qI1, pI1b, qI1b) \<in> set (enum_K (Some (L1, jK1, K1, M1, pS1, qS1, pI1, qI1, pI1b, qI1b)) g L1 jK1)"
    by (rule enum_K_resume_mem [OF mem' pos])
  then have ne: "enum_K (Some (L1, jK1, K1, M1, pS1, qS1, pI1, qI1, pI1b, qI1b)) g L1 jK1 \<noteq> []"
    by auto
  have inner: "(\<lambda>x. enum_K (if x = jK1 then Some (L1, jK1, K1, M1, pS1, qS1, pI1, qI1, pI1b, qI1b) else None) g L1 x) =
      (\<lambda>x. if x = jK1 then enum_K (Some (L1, jK1, K1, M1, pS1, qS1, pI1, qI1, pI1b, qI1b)) g L1 jK1
           else enum_K None g L1 x)"
    by (auto simp add: fun_eq_iff)
  show ?thesis
    unfolding makematrix_jK2.simps enum_jK_def Let_def start_at_simps resume_simps qn_simps
    apply (subst if_P [OF on])
    apply (subst inner)
    apply (rule for_loop_nest_flag_on [where flag = diagRC])
          apply (simp)
         apply (rule on)
        apply (rule le)
       apply (simp add: makematrix_K2_resumed [OF _ mem' pos])
      apply (rule ne)
     apply (simp add: makematrix_K2_from_start [OF _ pos])
    apply (erule column_body_clears_diagRC)
    done
qed
subsection \<open>The columns of a row\<close>

lemma basis_member:
  assumes "(L1, jK1, K1, M1, pS1, qS1, pI1, qI1, pI1b, qI1b) \<in> set (basis g)"
  shows "0 \<le> L1" and "L1 \<le> Lemax g" and "\<not> (isodd L1 \<noteq> 0 \<and> L1 > Lomax g)"
    and "(jK1, K1, M1, pS1, qS1, pI1, qI1, pI1b, qI1b) \<in> set (enum_jK None g L1)"
  using assms
  by (auto simp add: basis_def set_nest set_c_range_unit split: if_splits)

lemma makematrix_L2_columns:
  assumes mem: "r \<in> set (basis g)" and on: "diagRC s" and pos: "0 < deltaK g"
  shows "makematrix_L2 jjj g r s = for_list (column_body jjj g r) (columns g r) s"
proof -
  obtain L1 jK1 K1 M1 pS1 qS1 pI1 qI1 pI1b qI1b
    where r: "r = (L1, jK1, K1, M1, pS1, qS1, pI1, qI1, pI1b, qI1b)"
    by (cases r) auto
  note m = basis_member [OF mem [unfolded r]]
  have le: "L1 \<le> mini (Lemax g) (L1 + Lband)"
    using m(2) by (simp add: mini_def Lband_def)
  have "(jK1, K1, M1, pS1, qS1, pI1, qI1, pI1b, qI1b)
        \<in> set (enum_jK (Some (L1, jK1, K1, M1, pS1, qS1, pI1, qI1, pI1b, qI1b)) g L1)"
    by (rule enum_jK_resume_mem [OF m(4) pos])
  then have ne: "enum_jK (Some (L1, jK1, K1, M1, pS1, qS1, pI1, qI1, pI1b, qI1b)) g L1 \<noteq> []"
    by auto
  have inner: "(\<lambda>x. if isodd x \<noteq> 0 \<and> Lomax g < x then []
                   else enum_jK (if x = L1 then Some (L1, jK1, K1, M1, pS1, qS1, pI1, qI1, pI1b, qI1b)
                                 else None) g x) =
      (\<lambda>x. if x = L1 then enum_jK (Some (L1, jK1, K1, M1, pS1, qS1, pI1, qI1, pI1b, qI1b)) g L1
           else if isodd x \<noteq> 0 \<and> Lomax g < x then [] else enum_jK None g x)"
    using m(3) by (auto simp add: fun_eq_iff)
  show ?thesis
    unfolding r makematrix_L2.simps columns_def Let_def resume_simps qn_simps
    apply (subst inner)
    apply (rule for_loop_nest_flag_on [where flag = diagRC])
          apply simp
         apply (rule on)
        apply (rule le)
       apply (simp add: makematrix_jK2_resumed [OF _ m(4) pos] m(3))
      apply (rule ne)
     apply (simp add: makematrix_jK2_from_start [OF _ pos])
    apply (erule column_body_clears_diagRC)
    done
qed

lemma columns_subset:
  assumes mem: "r \<in> set (basis g)" and t: "t \<in> set (columns g r)"
  shows "t \<in> set (basis g) \<and> r \<le> t"
proof -
  obtain L1 jK1 K1 M1 pS1 qS1 pI1 qI1 pI1b qI1b
    where r: "r = (L1, jK1, K1, M1, pS1, qS1, pI1, qI1, pI1b, qI1b)"
    by (cases r) auto
  note m = basis_member [OF mem [unfolded r]]
  obtain x t' where tx: "t = (x, t')" by (cases t)
  from t tx have x: "L1 \<le> x" "x \<le> mini (Lemax g) (L1 + Lband)"
    and nf: "\<not> (isodd x \<noteq> 0 \<and> Lomax g < x)"
    and t': "if x = L1
             then t' \<in> set (enum_jK (Some (L1, jK1, K1, M1, pS1, qS1, pI1, qI1, pI1b, qI1b)) g L1)
             else t' \<in> set (enum_jK None g x)"
    by (auto simp add: r columns_def set_nest set_c_range_unit split: if_splits)
  have xin: "0 \<le> x" "x \<le> Lemax g"
    using x m(1) by (auto simp add: mini_def split: if_splits)
  show ?thesis
  proof (cases "x = L1")
    case True
    with t' have "t' \<in> set (enum_jK (Some (L1, jK1, K1, M1, pS1, qS1, pI1, qI1, pI1b, qI1b)) g L1)"
      by simp
    then have "t' \<in> set (enum_jK None g L1)
               \<and> (jK1, K1, M1, pS1, qS1, pI1, qI1, pI1b, qI1b) \<le> t'"
      by (rule enum_jK_resume_subset [OF m(4)])
    with True xin nf show ?thesis
      by (simp add: r tx basis_def set_nest set_c_range_unit less_eq_prod_def)
  next
    case False
    with t' xin x nf show ?thesis
      by (simp add: r tx basis_def set_nest set_c_range_unit less_eq_prod_def)
  qed
qed

lemma columns_length:
  assumes split: "basis g = pre @ r # post"
  shows "length (columns g r) \<le> Suc (length post)"
proof -
  have mem: "r \<in> set (basis g)" using split by simp
  have sorted: "sorted_wrt (<) (pre @ r # post)"
    using basis_sorted [of g] split by simp
  have "set (columns g r) \<subseteq> set (r # post)"
  proof
    fix t assume "t \<in> set (columns g r)"
    with columns_subset [OF mem] have t: "t \<in> set (basis g)" "r \<le> t" by simp_all
    have "t \<notin> set pre"
    proof
      assume "t \<in> set pre"
      with sorted have "t < r" by (simp add: sorted_wrt_append)
      with t(2) show False by simp
    qed
    with t(1) split show "t \<in> set (r # post)" by simp
  qed
  moreover have "distinct (columns g r)"
    using columns_sorted [of g r] by (simp add: strict_sorted_iff)
  ultimately have "length (columns g r) \<le> card (set (r # post))"
    by (metis distinct_card card_mono List.finite_set)
  also have "\<dots> \<le> length (r # post)"
    by (rule card_length)
  finally show ?thesis by simp
qed

section \<open>Loops that run no round\<close>

lemma for_loop_first:
  assumes "for_loop x hi step body s = Some (Done s')" and "x \<le> hi"
  shows "\<exists>s1. body x s = Some (Done s1)"
  using assms by (subst (asm) for_loop.simps) (auto split: option.splits res.splits)

lemma for_list_skip:
  "(\<And>x s. body x s = Some (Done s)) \<Longrightarrow> for_list body xs s = Some (Done s)"
  by (induction xs) simp_all

lemma for_loop_skip:
  "0 < step \<Longrightarrow> (\<And>x s. body x s = Some (Done s)) \<Longrightarrow> for_loop x hi step body s = Some (Done s)"
  by (simp add: for_loop_pos for_list_skip)

text \<open>
  With \<open>deltaK \<le> 0\<close> a \<open>K\<close> loop that is entered does not return normally; a nest that
  returns normally has therefore entered none.
\<close>

lemma BasisSize_L1_nonpos:
  assumes run: "BasisSize_L1 g n = Some (Done n')" and stride: "deltaK g \<le> 0"
  shows "no_K_round g"
proof (rule ccontr)
  assume "\<not> no_K_round g"
  then have b: "0 \<le> Lemax g" "jKmin g \<le> 1" "0 \<le> Kmax g"
    by (simp_all add: no_K_round_def)
  from for_loop_first [OF run [unfolded BasisSize_L1_def] b(1)]
  obtain n1 where "BasisSize_jK1 g 0 n = Some (Done n1)"
    by (auto simp add: isodd_def)
  from for_loop_first [OF this [unfolded BasisSize_jK1_def] b(2)]
  obtain n2 where "BasisSize_K1 g 0 (jKmin g) n = Some (Done n2)"
    by auto
  then have "for_loop 0 (mini (Kmax g) 0) (deltaK g)
      (\<lambda>K1 iRow. if (of_bool (K1 = 0) AND of_bool (parity 0 \<noteq> jKmin g)) \<noteq> (0::int)
                  then continue iRow else BasisSize_M1 g 0 iRow) n = Some (Done n2)"
    by (simp add: BasisSize_K1_def Let_def)
  from for_loop_nonpos [OF this stride] b(3) show False
    by (simp add: mini_def)
qed

lemma makematrix_L1_nonpos:
  assumes run: "makematrix_L1 jjj g s = Some (Done s')" and stride: "deltaK g \<le> 0"
  shows "no_K_round g"
proof (rule ccontr)
  assume "\<not> no_K_round g"
  then have b: "0 \<le> Lemax g" "jKmin g \<le> 1" "0 \<le> Kmax g"
    by (simp_all add: no_K_round_def)
  from for_loop_first [OF run [unfolded makematrix_L1_def] b(1)]
  obtain s1 where "makematrix_jK1 jjj g 0 s = Some (Done s1)"
    by (auto simp add: isodd_def)
  from for_loop_first [OF this [unfolded makematrix_jK1_def] b(2)]
  obtain s2 where "makematrix_K1 jjj g 0 (jKmin g) s = Some (Done s2)"
    by auto
  then have "for_loop 0 (mini (Kmax g) 0) (deltaK g)
      (\<lambda>K1 s. if K1 = 0 \<and> parity 0 \<noteq> jKmin g then continue s
               else makematrix_M1 jjj g 0 (jKmin g) K1 s) s = Some (Done s2)"
    by (simp add: makematrix_K1_def Let_def)
  from for_loop_nonpos [OF this stride] b(3) show False
    by (simp add: mini_def)
qed

lemma mini_Kmax_negative: "no_K_round g \<Longrightarrow> 0 \<le> Lemax g \<Longrightarrow> jKmin g \<le> 1 \<Longrightarrow> mini (Kmax g) L < 0"
  by (auto simp add: no_K_round_def mini_def)

lemma BasisSize_L1_no_K_round:
  assumes "no_K_round g"
  shows "BasisSize_L1 g n = Some (Done n)"
proof (cases "0 \<le> Lemax g \<and> jKmin g \<le> 1")
  case False
  then consider "Lemax g < 0" | "1 < jKmin g" by fastforce
  then show ?thesis
  proof cases
    case 1
    then show ?thesis by (simp add: BasisSize_L1_def for_loop_empty)
  next
    case 2
    then have "\<And>L1 n. BasisSize_jK1 g L1 n = Some (Done n)"
      by (simp add: BasisSize_jK1_def for_loop_empty)
    then show ?thesis
      unfolding BasisSize_L1_def by (intro for_loop_skip) simp_all
  qed
next
  case True
  with assms have "\<And>L1 jK1 n. BasisSize_K1 g L1 jK1 n = Some (Done n)"
    by (simp add: BasisSize_K1_def Let_def for_loop_empty mini_Kmax_negative)
  then have "\<And>L1 n. BasisSize_jK1 g L1 n = Some (Done n)"
    unfolding BasisSize_jK1_def by (intro for_loop_skip) simp_all
  then show ?thesis
    unfolding BasisSize_L1_def by (intro for_loop_skip) simp_all
qed

lemma makematrix_L1_no_K_round:
  assumes "no_K_round g"
  shows "makematrix_L1 jjj g s = Some (Done s)"
proof (cases "0 \<le> Lemax g \<and> jKmin g \<le> 1")
  case False
  then consider "Lemax g < 0" | "1 < jKmin g" by fastforce
  then show ?thesis
  proof cases
    case 1
    then show ?thesis by (simp add: makematrix_L1_def for_loop_empty)
  next
    case 2
    then have "\<And>L1 s. makematrix_jK1 jjj g L1 s = Some (Done s)"
      by (simp add: makematrix_jK1_def for_loop_empty)
    then show ?thesis
      unfolding makematrix_L1_def by (intro for_loop_skip) simp_all
  qed
next
  case True
  with assms have "\<And>L1 jK1 s. makematrix_K1 jjj g L1 jK1 s = Some (Done s)"
    by (simp add: makematrix_K1_def Let_def for_loop_empty mini_Kmax_negative)
  then have "\<And>L1 s. makematrix_jK1 jjj g L1 s = Some (Done s)"
    unfolding makematrix_jK1_def by (intro for_loop_skip) simp_all
  then show ?thesis
    unfolding makematrix_L1_def by (intro for_loop_skip) simp_all
qed

section \<open>The row counter\<close>

lemma column_body_iRow:
  "column_body jjj g r c s = Some res \<Longrightarrow> iRow (state_of res) = iRow s"
  by (auto simp add: column_body_def store_element_def next_column_def write_element_def Let_def
        split: res.splits if_splits)

lemma row_body_iRow:
  assumes "row_body jjj g r s = Some (Done s')"
  shows "iRow s' = iRow s + 1"
proof -
  let ?s0 = "s\<lparr> iCol := iRow s, diagRC := True \<rparr>"
  obtain s1 where cols: "makematrix_L2 jjj g r ?s0 = Some (Done s1)"
    and s': "s' = s1\<lparr> iRow := iRow s1 + 1 \<rparr>"
    using assms
    by (auto simp add: row_body_def Let_def split: option.splits res.splits if_splits)
  have "case Done s1 of Done t \<Rightarrow> iRow t = iRow s | Fatal m t \<Rightarrow> True"
    by (rule makematrix_L2_rule [where P = "\<lambda>t. iRow t = iRow s" and Q = "\<lambda>_ _. True", OF cols])
       (use column_body_iRow in fastforce)+
  then show ?thesis by (simp add: s')
qed

lemma rows_count:
  "for_list (row_body jjj g) xs s = Some (Done s') \<Longrightarrow> iRow s' = iRow s + int (length xs)"
proof (induction xs arbitrary: s)
  case Nil
  then show ?case by simp
next
  case (Cons r xs)
  then obtain s1 where "row_body jjj g r s = Some (Done s1)"
    "for_list (row_body jjj g) xs s1 = Some (Done s')"
    by (auto split: option.splits res.splits)
  with Cons.IH [of s1] row_body_iRow [of jjj g r s s1] show ?case by simp
qed

lemma makematrix_nRows:
  assumes run: "makematrix jjj g = Some (Done s)"
  shows "BasisSize g = Some (nRows s)"
proof -
  obtain s1 where rows: "makematrix_L1 jjj g mm_init = Some (Done s1)"
    and s: "nRows s = iRow s1"
    using run by (auto simp add: makematrix_def split: option.splits res.splits)
  show ?thesis
  proof (cases "0 < deltaK g")
    case True
    with rows have "for_list (row_body jjj g) (basis g) mm_init = Some (Done s1)"
      by (simp add: makematrix_L1_rows)
    then have "iRow s1 = int (length (basis g))"
      using rows_count [of jjj g "basis g" mm_init s1] by (simp add: mm_init_def)
    with True s show ?thesis by (simp add: BasisSize_positive_stride)
  next
    case False
    then have "no_K_round g"
      using makematrix_L1_nonpos [OF rows] by simp
    then have "makematrix_L1 jjj g mm_init = Some (Done mm_init)" "BasisSize_L1 g 0 = Some (Done 0)"
      by (simp_all add: makematrix_L1_no_K_round BasisSize_L1_no_K_round)
    with rows s show ?thesis by (simp add: BasisSize_def mm_init_def)
  qed
qed

section \<open>The row capacity\<close>

text \<open>
  A run of the innermost body over a list of columns that fits below \<^verbatim>\<open>maxRows\<close> advances
  \<^verbatim>\<open>iCol\<close> by the number of columns and does not raise the row-capacity error.
\<close>

lemma column_body_within_rows:
  assumes "column_body jjj g r c s = Some res" and "iCol s + 1 < maxRows g"
  shows "within_rows (iRow s) (iCol s + 1) res"
  using assms
  by (auto simp add: within_rows_def column_body_def store_element_def next_column_def
        write_element_def Let_def split: res.splits if_splits)

lemma columns_within_rows:
  "for_list (column_body jjj g r) cs s = Some res \<Longrightarrow> iCol s + int (length cs) < maxRows g \<Longrightarrow>
   within_rows (iRow s) (iCol s + int (length cs)) res"
proof (induction cs arbitrary: s)
  case Nil
  then show ?case by (auto simp add: within_rows_def)
next
  case (Cons c cs)
  from Cons.prems(1) obtain r1 where r1: "column_body jjj g r c s = Some r1"
    by (auto split: option.splits)
  have "iCol s + 1 < maxRows g"
    using Cons.prems(2) by simp
  from column_body_within_rows [OF r1 this] have w: "within_rows (iRow s) (iCol s + 1) r1" .
  show ?case
  proof (cases r1)
    case (Fatal m t)
    with Cons.prems(1) r1 w show ?thesis by (auto simp add: within_rows_def)
  next
    case (Done t)
    with w have t: "iRow t = iRow s" "iCol t = iCol s + 1"
      by (simp_all add: within_rows_def)
    from Cons.prems(1) r1 Done have "for_list (column_body jjj g r) cs t = Some res"
      by simp
    from Cons.IH [OF this] Cons.prems(2) t show ?thesis
      by (simp add: add.assoc)
  qed
qed

lemma row_body_within_rows:
  assumes split: "basis g = pre @ r # post"
    and row: "iRow s = int (length pre)"
    and cap: "maxRows g = int (length (basis g)) + 1"
    and pos: "0 < deltaK g"
    and run: "row_body jjj g r s = Some res"
  shows "case res of Done s' \<Rightarrow> iRow s' = iRow s + 1 | Fatal m s' \<Rightarrow> m \<noteq> dimension_error"
proof -
  let ?s0 = "s\<lparr> iCol := iRow s, diagRC := True \<rparr>"
  have mem: "r \<in> set (basis g)"
    by (simp add: split)
  have cols: "makematrix_L2 jjj g r ?s0 = for_list (column_body jjj g r) (columns g r) ?s0"
    by (rule makematrix_L2_columns [OF mem _ pos]) simp
  from run obtain r1 where r1: "for_list (column_body jjj g r) (columns g r) ?s0 = Some r1"
    by (auto simp add: row_body_def Let_def cols split: option.splits)
  have len: "int (length (columns g r)) \<le> 1 + int (length post)"
    using columns_length [OF split] by simp
  have fit: "iCol ?s0 + int (length (columns g r)) < maxRows g"
    using len by (simp add: cap row split)
  from columns_within_rows [OF r1 fit]
  have w: "within_rows (iRow s) (iRow s + int (length (columns g r))) r1"
    by simp
  show ?thesis
  proof (cases r1)
    case (Fatal m t)
    with run r1 w show ?thesis
      by (auto simp add: row_body_def Let_def cols within_rows_def)
  next
    case (Done t)
    with w have t: "iRow t = iRow s"
      by (simp add: within_rows_def)
    have "iRow t + 1 < maxRows g"
      by (simp add: t cap row split)
    with run r1 Done t show ?thesis
      by (auto simp add: row_body_def Let_def cols)
  qed
qed

lemma rows_within_rows:
  assumes cap: "maxRows g = int (length (basis g)) + 1" and pos: "0 < deltaK g"
  shows "basis g = pre @ rest \<Longrightarrow> iRow s = int (length pre) \<Longrightarrow>
    for_list (row_body jjj g) rest s = Some res \<Longrightarrow>
    (case res of Done s' \<Rightarrow> True | Fatal m s' \<Rightarrow> m \<noteq> dimension_error)"
proof (induction rest arbitrary: pre s)
  case Nil
  then show ?case by auto
next
  case (Cons r rest)
  from Cons.prems(3) obtain r1 where r1: "row_body jjj g r s = Some r1"
    by (auto split: option.splits)
  note w = row_body_within_rows [OF Cons.prems(1) Cons.prems(2) cap pos r1]
  show ?case
  proof (cases r1)
    case (Fatal m t)
    with Cons.prems(3) r1 w show ?thesis by auto
  next
    case (Done t)
    with w have t: "iRow t = int (length (pre @ [r]))"
      by (simp add: Cons.prems(2))
    have sp: "basis g = (pre @ [r]) @ rest"
      by (simp add: Cons.prems(1))
    from Cons.prems(3) r1 Done have "for_list (row_body jjj g) rest t = Some res"
      by simp
    from Cons.IH [OF sp t this] show ?thesis .
  qed
qed

lemma makematrix_never_dimension_error:
  assumes size: "BasisSize g = Some N" and cap: "maxRows g = N + 1"
  shows "makematrix jjj g \<noteq> Some (Fatal dimension_error s)"
proof (cases "0 < deltaK g")
  case True
  then have N: "N = int (length (basis g))"
    using size by (simp add: BasisSize_positive_stride)
  show ?thesis
  proof
    assume bad: "makematrix jjj g = Some (Fatal dimension_error s)"
    then have "for_list (row_body jjj g) (basis g) mm_init = Some (Fatal dimension_error s)"
      by (auto simp add: makematrix_def makematrix_L1_rows [OF True]
            split: option.splits res.splits)
    from rows_within_rows [OF cap [unfolded N] True _ _ this, of "[]"] show False
      by (simp add: mm_init_def)
  qed
next
  case False
  from size obtain n where "BasisSize_L1 g 0 = Some (Done n)"
    by (auto simp add: BasisSize_def split: option.splits res.splits)
  from BasisSize_L1_nonpos [OF this] False have "no_K_round g"
    by simp
  then show ?thesis
    by (simp add: makematrix_def makematrix_L1_no_K_round)
qed

section \<open>Counting rows and enumerating rows\<close>

text \<open>
  Claim C1: \<^verbatim>\<open>BasisSize\<close> and the row loops of \<^verbatim>\<open>makematrix\<close> go through the same
  sequence of basis indices. With a positive stride \<open>deltaK\<close> the counting nest adds the
  length of the list \<open>basis g\<close> to its counter, and the row loops run the body of a row once
  for each element of that list, in the order of the list. For every configuration, a run of
  With a stride that is not positive, \<^verbatim>\<open>BasisSize\<close> returns only if no \<open>K\<close> loop is
  entered; the count is then zero and the row loops run no row. For every configuration, a
  run of \<^verbatim>\<open>makematrix\<close> that completes leaves in \<^verbatim>\<open>nRows\<close> the number that
  \<^verbatim>\<open>BasisSize\<close> returns.
  The two forms of the filter for a director along the field reject the same indices.
\<close>

theorem BasisSize_counts_makematrix_rows:
  "(0 < deltaK g \<longrightarrow>
      BasisSize_L1 g n = Some (Done (n + int (length (basis g)))) \<and>
      BasisSize g = Some (int (length (basis g))) \<and>
      makematrix_L1 jjj g s = for_list (row_body jjj g) (basis g) s) \<and>
   (deltaK g \<le> 0 \<and> BasisSize g = Some N \<longrightarrow>
      N = 0 \<and> makematrix_L1 jjj g s = for_list (row_body jjj g) [] s) \<and>
   (makematrix jjj g = Some (Done s') \<longrightarrow> BasisSize g = Some (nRows s')) \<and>
   (((pI1 + pI1b + pS1 - 1) \<noteq> M1) \<longleftrightarrow> ((pI1 + pI1b + pS1 - M1) \<noteq> (1::int)))"
proof (intro conjI impI)
  show "((pI1 + pI1b + pS1 - 1) \<noteq> M1) \<longleftrightarrow> ((pI1 + pI1b + pS1 - M1) \<noteq> (1::int))"
    by arith
next
  assume a: "deltaK g \<le> 0 \<and> BasisSize g = Some N"
  then have count: "BasisSize_L1 g 0 = Some (Done N)"
    by (auto simp add: BasisSize_def split: option.splits res.splits)
  from BasisSize_L1_nonpos [OF count] a have none: "no_K_round g"
    by simp
  from BasisSize_L1_no_K_round [OF none, of 0] count show "N = 0"
    by simp
  from makematrix_L1_no_K_round [OF none]
  show "makematrix_L1 jjj g s = for_list (row_body jjj g) [] s"
    by simp
qed (simp_all add: BasisSize_L1_count BasisSize_positive_stride makematrix_L1_rows
       makematrix_nRows)

theorem BasisSize_counts_makematrix_rows_witness:
  "0 < deltaK globals_small \<and> length (basis globals_small) = 3 \<and>
   BasisSize globals_small = Some 3 \<and>
   (\<exists>s. makematrix jjj_zero globals_small = Some (Done s) \<and> nRows s = 3)"
proof -
  have pos: "0 < deltaK globals_small"
    by (simp add: eval_inputs c_int_def)
  have "\<exists>s. makematrix jjj_zero globals_small = Some (Done s) \<and> nRows s = 3"
    by (simp add: eval_inputs eval_basis eval_makematrix eval_element)
  then obtain s where run: "makematrix jjj_zero globals_small = Some (Done s)"
    and rows: "nRows s = 3"
    by blast
  note fact = BasisSize_counts_makematrix_rows [of globals_small 0 jjj_zero mm_init 0 s 0 0 0 0]
  from fact run rows have size: "BasisSize globals_small = Some 3"
    by simp
  from fact pos have "BasisSize globals_small = Some (int (length (basis globals_small)))"
    by simp
  with size have "length (basis globals_small) = 3"
    by simp
  with pos size run rows show ?thesis
    by simp
qed

section \<open>The row capacity that the caller supplies\<close>

lemma BasisSize_maxRows: "BasisSize (g\<lparr> maxRows := x \<rparr>) = BasisSize g"
  by (simp add: BasisSize_def BasisSize_loops cong: if_cong)

lemma parse_args_allocation_rows:
  "(parse_args (a\<lparr> allocationOptions := (allocationOptions a)(1 := x) \<rparr>) g0)\<lparr> maxRows := n \<rparr> =
   (parse_args a g0)\<lparr> maxRows := n \<rparr>"
  by (simp add: parse_args_def)

lemma parse_args_maxRows:
  "parse_args a g0 = (parse_args a g0)\<lparr> maxRows := c_int (allocationOptions a 1) \<rparr>"
  by (simp add: parse_args_def)

lemma BasisSize_allocation_rows:
  "BasisSize (parse_args (a\<lparr> allocationOptions := (allocationOptions a)(1 := x) \<rparr>) g0) =
   BasisSize (parse_args a g0)"
proof -
  have "BasisSize (parse_args (a\<lparr> allocationOptions := (allocationOptions a)(1 := x) \<rparr>) g0) =
      BasisSize ((parse_args (a\<lparr> allocationOptions := (allocationOptions a)(1 := x) \<rparr>) g0)
        \<lparr> maxRows := 0 \<rparr>)"
    by (simp only: BasisSize_maxRows)
  also have "\<dots> = BasisSize ((parse_args a g0)\<lparr> maxRows := 0 \<rparr>)"
    by (simp only: parse_args_allocation_rows)
  also have "\<dots> = BasisSize (parse_args a g0)"
    by (simp only: BasisSize_maxRows)
  finally show ?thesis .
qed

text \<open>
  Claim C9: a call with four arguments never ends in the row-capacity abort, and the second
  allocation limit that the caller supplies does not change its result: the same matrix, the
  same abort, or no return, and the same globals.
\<close>

theorem supplied_row_capacity_has_no_effect:
  "mexFunction jjj nlhs 4 a g0 \<noteq>
     Some (Fatal ''Dimension too large. Increase Opt.Allocation(2).'' st) \<and>
   mexFunction jjj nlhs 4 (a\<lparr> allocationOptions := (allocationOptions a)(1 := x) \<rparr>) g0 =
     mexFunction jjj nlhs 4 a g0"
proof
  show "mexFunction jjj nlhs 4 a g0 \<noteq> Some (Fatal dimension_error st)"
  proof (cases "BasisSize (parse_args a g0)")
    case None
    then show ?thesis by (simp add: mexFunction_def)
  next
    case (Some N)
    let ?g = "(parse_args a g0)\<lparr> maxRows := N + 1 \<rparr>"
    have size: "BasisSize ?g = Some N"
      by (simp only: BasisSize_maxRows Some)
    have never: "\<And>s. makematrix jjj ?g \<noteq> Some (Fatal dimension_error s)"
      by (rule makematrix_never_dimension_error [OF size]) simp
    show ?thesis
    proof
      assume "mexFunction jjj nlhs 4 a g0 = Some (Fatal dimension_error st)"
      then obtain s where "makematrix jjj ?g = Some (Fatal dimension_error s)"
        by (auto simp add: mexFunction_def Some Let_def split: if_splits option.splits res.splits)
      with never show False by blast
    qed
  qed
  show "mexFunction jjj nlhs 4 (a\<lparr> allocationOptions := (allocationOptions a)(1 := x) \<rparr>) g0 =
      mexFunction jjj nlhs 4 a g0"
    unfolding mexFunction_def Let_def BasisSize_allocation_rows parse_args_allocation_rows ..
qed

theorem supplied_row_capacity_has_no_effect_witness:
  "case mexFunction jjj_zero 5 4
          ((args_exchange 100)\<lparr> allocationOptions := (allocationOptions (args_exchange 100))(1 := 0) \<rparr>)
          globals_zero of
     Some (Done st) \<Rightarrow>
       maxRows (glob st) = 4 \<and> (case plhs st of Some s \<Rightarrow> nRows s = 3 | None \<Rightarrow> False)
   | _ \<Rightarrow> False"
proof -
  have "case mexFunction jjj_zero 5 4 (args_exchange 100) globals_zero of
     Some (Done st) \<Rightarrow>
       maxRows (glob st) = 4 \<and> (case plhs st of Some s \<Rightarrow> nRows s = 3 | None \<Rightarrow> False)
   | _ \<Rightarrow> False"
    by (simp add: eval_inputs eval_basis eval_makematrix eval_element)
  then show ?thesis
    by (simp only: supplied_row_capacity_has_no_effect [THEN conjunct2])
qed

section \<open>Argument count of mexFunction\<close>




section \<open>BasisSize reads the basis truncation, the spins and the tilt only\<close>

text \<open>
  Claim C10: two configurations that agree on the basis truncation, on the spins \<open>I\<close> and
  \<open>Ib\<close>, on the director tilt and on the symmetry flag give the same result of
  \<^verbatim>\<open>BasisSize\<close> (the same count, or both calls do not return), whatever the magnetic
  interactions, the diffusion rates, the exchange rate and the potential coefficients are.
\<close>

theorem BasisSize_independent_of_interactions:
  assumes "Lemax g = Lemax g'" and "Lomax g = Lomax g'" and "Kmax g = Kmax g'"
      and "Mmax g = Mmax g'" and "jKmin g = jKmin g'" and "pSmin g = pSmin g'"
      and "deltaK g = deltaK g'" and "pImax g = pImax g'" and "pIbmax g = pIbmax g'"
      and "MeirovitchSymm g = MeirovitchSymm g'"
      and "I (Sys g) = I (Sys g')" and "Ib (Sys g) = Ib (Sys g')"
      and "DirTilt (Sys g) = DirTilt (Sys g')"
  shows "BasisSize g = BasisSize g'"
  using assms by (simp add: BasisSize_def BasisSize_loops cong: if_cong)

theorem BasisSize_independent_of_interactions_witness:
  "BasisSize globals_small = Some 3 \<and> BasisSize globals_other = Some 3"
proof -
  have "BasisSize globals_small = Some 3"
    by (simp add: eval_inputs eval_basis)
  moreover have "BasisSize globals_small = BasisSize globals_other"
    by (rule BasisSize_independent_of_interactions) (simp_all add: eval_inputs)
  ultimately show ?thesis by simp
qed

section \<open>The capacity check of the element arrays\<close>

text \<open>
  Claim C2 at a concrete call: three basis indices, exchange rate 2, and arrays allocated with
  \<open>maxElements = 2\<close> cells (offsets 0 and 1). The diagonal element of row 0 goes to offset 0.
  The element of row 0 and column 1 goes to offset 1 and its mirror image to offset 2, which
  is outside the arrays; the comparison with \<^verbatim>\<open>maxElements\<close> comes after both writes.
\<close>

theorem makematrix_writes_past_maxElements:
  "(case mexFunction jjj 5 4 (args_exchange 2) globals_zero of
      Some (Fatal m st) \<Rightarrow>
        m = ''Number of non-zero elements too large. Increase Opt.Allocation(1).'' \<and>
        maxElements (glob st) = 2 \<and>
        (case plhs st of
           Some s \<Rightarrow>
             ridx s 2 = Some 1 \<and> cidx s 2 = Some 0 \<and>
             MatrixRe s 2 = Some (- 1) \<and> MatrixIm s 2 = Some 0
         | None \<Rightarrow> False)
    | _ \<Rightarrow> False)"
  by (simp add: eval_inputs eval_basis eval_makematrix eval_element)

section \<open>The normalisation prefactor\<close>









end
